theory Spec2Isabelle
  imports Complex_Main
begin

section \<open>Casagrande's construction of the preconsolidation pressure (pysigmap, casagrande.py)\<close>

text \<open>
  The module holds one class, \<open>Casagrande\<close>, whose method \<open>getSigmaP\<close> locates the
  maximum-curvature point (MCP) of a compressibility curve, bisects the angle between the
  tangent at the MCP and the horizontal, and intersects the bisector with the virgin
  compression line.

  Python's float64 values are modelled as \<open>real\<close>: \<open>np.log10\<close> is \<open>log 10\<close>,
  \<open>10**x\<close> is \<open>10 powr x\<close>, \<open>np.tan\<close> and \<open>np.arctan\<close> are \<open>tan\<close> and
  \<open>arctan\<close>. Rounding, infinities and NaN are outside the model: where numpy would
  produce a non-finite value without raising (a division by zero, the logarithm of a
  number that is not positive) the model is not meant to be read, and statements that
  depend on such a point say so in a hypothesis. The one place where a non-finite value
  raises, the knots of the spline, is a branch of the model.
\<close>

subsection \<open>Exceptions\<close>

text \<open>
  \<open>IndexError\<close>, \<open>ValueError\<close> and \<open>TypeError\<close> are the Python exceptions that the
  modelled statements can raise. \<open>NoCurvatureMaximumError\<close> and
  \<open>DegenerateGeometryError\<close> are names of the specification's error taxonomy; no
  statement of casagrande.py raises them, and they are here so that statements about them
  can be written down.
\<close>

datatype error =
    IndexError
  | ValueError
  | TypeError
  | NoCurvatureMaximumError
  | DegenerateGeometryError

subsection \<open>The data object and the Casagrande object\<close>

text \<open>
  \<open>self.data\<close> is an instance of the class \<open>Data\<close>. \<open>cleaned\<close> and \<open>raw\<close> are data
  frames with the columns \<open>stress\<close> and \<open>e\<close>; a frame is a list of rows. \<open>idxCc\<close> and
  \<open>idxCcInt\<close> are slope and intercept of the virgin compression line, \<open>sigmaV\<close> the
  in-situ vertical stress.
\<close>

record data =
  cleaned :: "(real \<times> real) list"
  raw :: "(real \<times> real) list"
  idxCc :: real
  idxCcInt :: real
  sigmaV :: real

text \<open>
  The attributes that \<open>getSigmaP\<close> assigns do not exist before the first call:
  \<open>None\<close> is an attribute that has not been assigned yet.
\<close>

record casagrande =
  data :: data
  sigmaMC :: "real option"
  eMC :: "real option"
  sigmaP :: "real option"
  eSigmaP :: "real option"
  ocr :: "real option"

definition init :: "data \<Rightarrow> casagrande" where
  "init d = \<lparr>data = d, sigmaMC = None, eMC = None, sigmaP = None, eSigmaP = None, ocr = None\<rparr>"

subsection \<open>What the method takes from outside this module\<close>

text \<open>
  Three computations are not code of casagrande.py and are parameters of the model:
  \<^item> \<open>interp x y nu\<close>: the piecewise cubic that \<open>scipy.interpolate.CubicSpline\<close> builds
    from the knots \<open>x\<close>, \<open>y\<close>, differentiated \<open>nu\<close> times (\<open>cs(t, nu)\<close>);
  \<^item> \<open>lstsq4 x y\<close>: the five coefficients \<open>p0 .. p4\<close> that
    \<open>numpy.polynomial.polynomial.polyfit(x, y, deg=4)\<close> returns;
  \<^item> \<open>findStressIdx d s c\<close>: the method \<open>Data.findStressIdx(stress2find=s, cleanedData=c)\<close>
    of the data object, an index into the frame or Python's \<open>None\<close>.
\<close>

record deps =
  interp :: "real list \<Rightarrow> real list \<Rightarrow> nat \<Rightarrow> real \<Rightarrow> real"
  lstsq4 :: "real list \<Rightarrow> real list \<Rightarrow> real \<times> real \<times> real \<times> real \<times> real"
  findStressIdx :: "data \<Rightarrow> real \<Rightarrow> bool \<Rightarrow> nat option"

subsection \<open>numpy and scipy functions\<close>

text \<open>\<open>np.linspace(start, stop, num)\<close>: \<open>num\<close> evenly spaced samples, both ends included.\<close>

definition linspace :: "real \<Rightarrow> real \<Rightarrow> nat \<Rightarrow> real list" where
  "linspace start stop num =
     map (\<lambda>i. start + real i * ((stop - start) / real (num - 1))) [0..<num]"

text \<open>\<open>polyval(x, c)\<close> of numpy.polynomial.polynomial: \<open>c[0] + c[1]*x + ...\<close>.\<close>

definition polyval :: "real \<Rightarrow> real list \<Rightarrow> real" where
  "polyval x c = foldr (\<lambda>a acc. a + x * acc) c 0"

text \<open>\<open>np.argmax\<close>: the first index of the greatest element; \<open>ValueError\<close> on an empty array.\<close>

fun argmax_aux :: "nat \<Rightarrow> real \<Rightarrow> nat \<Rightarrow> real list \<Rightarrow> nat" where
  "argmax_aux bi bv i [] = bi"
| "argmax_aux bi bv i (v # vs) =
     (if bv < v then argmax_aux i v (Suc i) vs else argmax_aux bi bv (Suc i) vs)"

definition argmax :: "real list \<Rightarrow> error + nat" where
  "argmax xs = (case xs of [] \<Rightarrow> Inl ValueError | v # vs \<Rightarrow> Inr (argmax_aux 0 v 1 vs))"

text \<open>
  \<open>CubicSpline(x, y)\<close> raises \<open>ValueError\<close> unless the knots are finite, \<open>x\<close> and
  \<open>y\<close> have the same length, there are at least two knots and \<open>x\<close> is strictly
  increasing; otherwise the object it returns is called as \<open>cs(t, nu)\<close>. The knots
  \<open>x\<close> of \<open>getSigmaP\<close> are \<open>np.log10\<close> of stresses, which is \<open>-inf\<close> or \<open>nan\<close>
  for a stress that is not positive: \<open>fin\<close> says that no such knot is among them.
\<close>

fun strictly_increasing :: "real list \<Rightarrow> bool" where
  "strictly_increasing (a # b # xs) = (a < b \<and> strictly_increasing (b # xs))"
| "strictly_increasing _ = True"

definition CubicSpline ::
  "(real list \<Rightarrow> real list \<Rightarrow> nat \<Rightarrow> real \<Rightarrow> real) \<Rightarrow> bool \<Rightarrow> real list \<Rightarrow> real list
     \<Rightarrow> error + (nat \<Rightarrow> real \<Rightarrow> real)" where
  "CubicSpline ip fin x y =
     (if fin \<and> length x = length y \<and> 2 \<le> length x \<and> strictly_increasing x
      then Inr (ip x y) else Inl ValueError)"

text \<open>\<open>polyfit(x, y, deg=4)\<close> raises \<open>TypeError\<close> on an empty \<open>x\<close>.\<close>

definition polyfit ::
  "(real list \<Rightarrow> real list \<Rightarrow> real \<times> real \<times> real \<times> real \<times> real) \<Rightarrow> real list \<Rightarrow> real list
     \<Rightarrow> error + real \<times> real \<times> real \<times> real \<times> real" where
  "polyfit ls x y = (if x = [] then Inl TypeError else Inr (ls x y))"

text \<open>A slice \<open>xs[a:b]\<close> whose bounds are non-negative integers or \<open>None\<close>.\<close>

definition py_slice :: "nat option \<Rightarrow> nat option \<Rightarrow> 'a list \<Rightarrow> 'a list" where
  "py_slice a b xs =
     (let lo = (case a of None \<Rightarrow> 0 | Some i \<Rightarrow> i);
          hi = (case b of None \<Rightarrow> length xs | Some j \<Rightarrow> j)
      in take (hi - lo) (drop lo xs))"

subsection \<open>scipy.signal.find_peaks with a distance\<close>

text \<open>
  \<open>find_peaks(x, distance=d)\<close> first collects the local maxima of \<open>x\<close>
  (\<open>_local_maxima_1d\<close>): a sample, or the middle of a run of equal samples, whose left
  neighbour is smaller and whose next different sample to the right is smaller. The scan
  starts at index 1 and stops before the last index, \<open>i_max = len(x) - 1\<close>.
\<close>

function plateau_end :: "real list \<Rightarrow> nat \<Rightarrow> nat \<Rightarrow> nat" where
  "plateau_end x i i_ahead =
     (if i_ahead < length x - 1 \<and> x ! i_ahead = x ! i then plateau_end x i (Suc i_ahead)
      else i_ahead)"
  by pat_completeness auto
termination
  by (relation "measure (\<lambda>(x, i, i_ahead). length x - i_ahead)") auto

declare plateau_end.simps [simp del]

function local_maxima_from :: "real list \<Rightarrow> nat \<Rightarrow> nat list" where
  "local_maxima_from x i =
     (if i < length x - 1 then
        (if x ! (i - 1) < x ! i then
           (let i_ahead = plateau_end x i (Suc i) in
            if x ! i_ahead < x ! i
            then ((i + (i_ahead - 1)) div 2) # local_maxima_from x (Suc i_ahead)
            else local_maxima_from x (Suc i))
         else local_maxima_from x (Suc i))
      else [])"
  by pat_completeness auto

lemma plateau_end_ge: "i_ahead \<le> plateau_end x i i_ahead"
proof (induction x i i_ahead rule: plateau_end.induct)
  case (1 x i i_ahead)
  show ?case
  proof (cases "i_ahead < length x - 1 \<and> x ! i_ahead = x ! i")
    case True
    with 1 have "Suc i_ahead \<le> plateau_end x i (Suc i_ahead)" by simp
    moreover from True have "plateau_end x i i_ahead = plateau_end x i (Suc i_ahead)"
      using plateau_end.simps [of x i i_ahead] by simp
    ultimately show ?thesis by simp
  next
    case False
    then have "plateau_end x i i_ahead = i_ahead"
      using plateau_end.simps [of x i i_ahead] by auto
    then show ?thesis by simp
  qed
qed

termination local_maxima_from
proof (relation "measure (\<lambda>(x, i). length x - i)")
  show "wf (measure (\<lambda>(x, i). length x - i))" by simp
next
  fix x :: "real list" and i xa :: nat
  assume a: "i < length x - 1" and b: "xa = plateau_end x i (Suc i)"
  have "Suc i \<le> xa" unfolding b by (rule plateau_end_ge)
  with a show "((x, Suc xa), x, i) \<in> measure (\<lambda>(x, i). length x - i)" by simp
qed auto

declare local_maxima_from.simps [simp del]

definition local_maxima :: "real list \<Rightarrow> nat list" where
  "local_maxima x = local_maxima_from x 1"

text \<open>
  Then \<open>_select_by_peak_distance(peaks, priority = x[peaks], distance)\<close> walks through the
  peaks from the highest to the lowest and, for each peak still kept, drops its
  neighbours on both sides that are closer than \<open>distance\<close>. \<open>argsort\<close> is numpy's; among
  equal priorities its order is taken to be the stable one.
\<close>

definition argsort :: "real list \<Rightarrow> nat list" where
  "argsort xs = map snd (sort_key fst (zip xs [0..<length xs]))"

text \<open>
  The loop \<open>k = j - 1; while 0 <= k and peaks[j] - peaks[k] < distance: keep[k] = 0; k -= 1\<close>;
  the counter of the model is \<open>k + 1\<close>.
\<close>

fun clear_left :: "nat list \<Rightarrow> nat \<Rightarrow> nat \<Rightarrow> nat \<Rightarrow> bool list \<Rightarrow> bool list" where
  "clear_left peaks d j 0 keep = keep"
| "clear_left peaks d j (Suc k) keep =
     (if int (peaks ! j) - int (peaks ! k) < int d
      then clear_left peaks d j k (keep[k := False]) else keep)"

text \<open>
  The loop \<open>k = j + 1; while k < peaks_size and peaks[k] - peaks[j] < distance:
  keep[k] = 0; k += 1\<close>.
\<close>

function clear_right :: "nat list \<Rightarrow> nat \<Rightarrow> nat \<Rightarrow> nat \<Rightarrow> bool list \<Rightarrow> bool list" where
  "clear_right peaks d j k keep =
     (if k < length peaks \<and> int (peaks ! k) - int (peaks ! j) < int d
      then clear_right peaks d j (Suc k) (keep[k := False]) else keep)"
  by pat_completeness auto
termination
  by (relation "measure (\<lambda>(peaks, d, j, k, keep). length peaks - k)") auto

declare clear_right.simps [simp del]

fun select_loop :: "nat list \<Rightarrow> nat \<Rightarrow> nat list \<Rightarrow> bool list \<Rightarrow> bool list" where
  "select_loop peaks d [] keep = keep"
| "select_loop peaks d (j # js) keep =
     (if \<not> keep ! j then select_loop peaks d js keep
      else select_loop peaks d js (clear_right peaks d j (Suc j) (clear_left peaks d j j keep)))"

definition select_by_peak_distance :: "nat list \<Rightarrow> real list \<Rightarrow> nat \<Rightarrow> bool list" where
  "select_by_peak_distance peaks priority d =
     select_loop peaks d (rev (argsort priority)) (replicate (length peaks) True)"

definition find_peaks :: "real list \<Rightarrow> nat \<Rightarrow> nat list" where
  "find_peaks x d =
     (let peaks = local_maxima x;
          keep = select_by_peak_distance peaks (map (\<lambda>p. x ! p) peaks) d
      in map fst (filter snd (zip peaks keep)))"

subsection \<open>getSigmaP\<close>

text \<open>The local function \<open>transform(x, reverse)\<close>; \<open>loglog\<close> is the method's argument.\<close>

definition transform :: "bool \<Rightarrow> real \<Rightarrow> bool \<Rightarrow> real" where
  "transform loglog x reverse =
     (if reverse then (if loglog then 10 powr (10 powr x) else 10 powr x)
      else (if loglog then log 10 (log 10 x) else log 10 x))"

text \<open>The curvature \<open>abs(f'') / (1 + f'**2)**1.5\<close> of both branches.\<close>

definition curvature_of :: "real \<Rightarrow> real \<Rightarrow> real" where
  "curvature_of secondDer firstDer = \<bar>secondDer\<bar> / (1 + firstDer\<^sup>2) powr (3/2)"

text \<open>
  The branch \<open>range2fitFOP is None\<close>: the curvature of the spline on the 100 samples
  \<open>sigmaCS\<close>, and the first entry of the array of peaks. Indexing an empty array of peaks
  raises \<open>IndexError\<close>. The result is the pair \<open>(self.sigmaMC, self.eMC)\<close>.
\<close>

definition spline_mcp :: "(nat \<Rightarrow> real \<Rightarrow> real) \<Rightarrow> real list \<Rightarrow> error + real \<times> real" where
  "spline_mcp cs sigmaCS =
     (let curvature = map (\<lambda>x. curvature_of (cs 2 x) (cs 1 x)) sigmaCS in
      case find_peaks curvature 500 of
        [] \<Rightarrow> Inl IndexError
      | maxCurvIdx # _ \<Rightarrow> Inr (10 powr (sigmaCS ! maxCurvIdx), cs 0 (sigmaCS ! maxCurvIdx)))"

text \<open>
  The branch of the fourth-order polynomial. \<open>polyfit\<close> has raised on an empty
  \<open>sigmaFOP\<close> before \<open>sigmaFOP.iloc[0]\<close> is read, and \<open>x4FOP\<close> has 1000 entries, so
  neither \<open>iloc\<close> nor \<open>argmax\<close> can fail after it.
\<close>

definition fop_samples :: "bool \<Rightarrow> real list \<Rightarrow> real list" where
  "fop_samples loglog sigmaFOP =
     map (\<lambda>x. transform loglog x False) (linspace (hd sigmaFOP) (last sigmaFOP) 1000)"

definition fop_curvature :: "real \<times> real \<times> real \<times> real \<times> real \<Rightarrow> real list \<Rightarrow> real list" where
  "fop_curvature p x4FOPlog =
     (case p of (p0, p1, p2, p3, p4) \<Rightarrow>
        map (\<lambda>x. curvature_of (2*p2 + 6*p3*x + 12*p4*x\<^sup>2)
                               (p1 + 2*p2*x + 3*p3*x\<^sup>2 + 4*p4*x^3)) x4FOPlog)"

definition fop_mcp :: "deps \<Rightarrow> data \<Rightarrow> real \<times> real \<Rightarrow> bool \<Rightarrow> error + real \<times> real" where
  "fop_mcp dp d range2fitFOP loglog =
     (let idxInitFOP = findStressIdx dp d (fst range2fitFOP) True;
          idxEndFOP = findStressIdx dp d (snd range2fitFOP) True;
          sigmaFOP = py_slice idxInitFOP idxEndFOP (map fst (cleaned d));
          sigmaFOPlog = map (\<lambda>x. transform loglog x False) sigmaFOP;
          eFOP = py_slice idxInitFOP idxEndFOP (map snd (cleaned d))
      in case polyfit (lstsq4 dp) sigmaFOPlog eFOP of
           Inl err \<Rightarrow> Inl err
         | Inr (p0, p1, p2, p3, p4) \<Rightarrow>
             (let x4FOPlog = fop_samples loglog sigmaFOP;
                  y4FOP = map (\<lambda>x. polyval x [p0, p1, p2, p3, p4]) x4FOPlog;
                  curvature = fop_curvature (p0, p1, p2, p3, p4) x4FOPlog
              in case argmax curvature of
                   Inl err \<Rightarrow> Inl err
                 | Inr maxCurvIdx \<Rightarrow>
                     Inr (transform loglog (x4FOPlog ! maxCurvIdx) True, y4FOP ! maxCurvIdx)))"

text \<open>
  The values of \<open>slopeMP\<close> (line 153) and \<open>slopeBisect\<close> (line 158), then of
  \<open>self.sigmaP\<close>, \<open>self.eSigmaP\<close> and \<open>self.ocr\<close> (lines 163 to 166) from the point
  \<open>(x1, y1)\<close> and the slope \<open>b\<close> of the bisector.
\<close>

definition slopeMP :: "(nat \<Rightarrow> real \<Rightarrow> real) \<Rightarrow> real \<Rightarrow> real" where
  "slopeMP cs sMC = cs 1 (log 10 sMC)"

definition slopeBisect :: "real \<Rightarrow> real" where
  "slopeBisect m = tan (0.5 * arctan m)"

definition intersect :: "data \<Rightarrow> real \<Rightarrow> real \<Rightarrow> real \<Rightarrow> real \<times> real \<times> real" where
  "intersect d x1 y1 b =
     (let sP = 10 powr ((y1 - b * x1 - idxCcInt d) / (- idxCc d - b));
          eSP = b * (log 10 sP - x1) + y1
      in (sP, eSP, sP / sigmaV d))"

text \<open>
  Lines 152 to 166: the bisector through the MCP \<open>(sMC, eMCv)\<close> and its intersection
  with the virgin compression line, assigned to the attributes.
\<close>

definition bisector_vcl :: "(nat \<Rightarrow> real \<Rightarrow> real) \<Rightarrow> casagrande \<Rightarrow> real \<Rightarrow> real \<Rightarrow> casagrande" where
  "bisector_vcl cs self sMC eMCv =
     (let b = slopeBisect (slopeMP cs sMC);
          (sP, eSP, oc) = intersect (data self) (log 10 sMC) eMCv b
      in self\<lparr>sigmaMC := Some sMC, eMC := Some eMCv, sigmaP := Some sP,
               eSigmaP := Some eSP, ocr := Some oc\<rparr>)"

text \<open>
  The first lines of the method: \<open>sigmaLog\<close>, the knots of the spline (the cleaned rows
  without the first one), and \<open>sigmaCS\<close>.
\<close>

definition stress1 :: "data \<Rightarrow> real list" where
  "stress1 d = map fst (tl (cleaned d))"

definition e1 :: "data \<Rightarrow> real list" where
  "e1 d = map snd (tl (cleaned d))"

definition sigmaLog :: "data \<Rightarrow> real list" where
  "sigmaLog d = map (log 10) (stress1 d)"

definition sigmaCS :: "data \<Rightarrow> real list" where
  "sigmaCS d = linspace (hd (sigmaLog d)) (last (sigmaLog d)) 100"

definition cs_of :: "deps \<Rightarrow> data \<Rightarrow> nat \<Rightarrow> real \<Rightarrow> real" where
  "cs_of dp d = interp dp (sigmaLog d) (e1 d)"

text \<open>
  The method. \<open>mcp\<close> and \<open>range2fitFOP\<close> are \<open>None\<close> by default. The spline is built and
  one of the two searches runs whatever \<open>mcp\<close> is; a given \<open>mcp\<close> then replaces the MCP
  that the search has found. Every statement that can raise comes before the first
  assignment to an attribute, so a call that raises leaves the object as it was, and the
  model returns the exception alone. The figure that the method draws and returns is not
  part of the model.
\<close>

definition mcp_search ::
  "deps \<Rightarrow> data \<Rightarrow> (nat \<Rightarrow> real \<Rightarrow> real) \<Rightarrow> (real \<times> real) option \<Rightarrow> bool \<Rightarrow> error + real \<times> real" where
  "mcp_search dp d cs range2fitFOP loglog =
     (case range2fitFOP of
        None \<Rightarrow> spline_mcp cs (sigmaCS d)
      | Some r \<Rightarrow> fop_mcp dp d r loglog)"

definition getSigmaP ::
  "deps \<Rightarrow> casagrande \<Rightarrow> real option \<Rightarrow> (real \<times> real) option \<Rightarrow> bool \<Rightarrow> error + casagrande" where
  "getSigmaP dp self mcp range2fitFOP loglog =
     (case CubicSpline (interp dp) (list_all (\<lambda>s. 0 < s) (stress1 (data self)))
             (sigmaLog (data self)) (e1 (data self)) of
        Inl err \<Rightarrow> Inl err
      | Inr cs \<Rightarrow>
          (case mcp_search dp (data self) cs range2fitFOP loglog of
             Inl err \<Rightarrow> Inl err
           | Inr (sMC0, eMC0) \<Rightarrow>
               (case mcp of
                  None \<Rightarrow> Inr (bisector_vcl cs self sMC0 eMC0)
                | Some m \<Rightarrow> Inr (bisector_vcl cs self m (cs 0 (log 10 m))))))"

text \<open>
  Two notions for the statements below. \<open>flat_peak x l r\<close>: the samples \<open>l .. r\<close> of
  \<open>x\<close> are equal, the sample before them and the sample after them are smaller, and
  neither end of \<open>x\<close> is among them. \<open>onehot n j\<close>: the array \<open>keep\<close> of length
  \<open>n\<close> in which exactly the entry \<open>j\<close> is set.
\<close>

definition flat_peak :: "real list \<Rightarrow> nat \<Rightarrow> nat \<Rightarrow> bool" where
  "flat_peak x l r \<longleftrightarrow>
     0 < l \<and> l \<le> r \<and> Suc r < length x \<and> x ! (l - 1) < x ! l \<and>
     (\<forall>k. l \<le> k \<and> k \<le> r \<longrightarrow> x ! k = x ! l) \<and> x ! Suc r < x ! l"

definition onehot :: "nat \<Rightarrow> nat \<Rightarrow> bool list" where
  "onehot n j = (replicate n False)[j := True]"

text \<open>
  \<open>unimodal x L R\<close>: the samples rise strictly up to \<open>L\<close>, are equal from \<open>L\<close> to \<open>R\<close>
  and fall strictly from \<open>R\<close> on.
\<close>

definition unimodal :: "real list \<Rightarrow> nat \<Rightarrow> nat \<Rightarrow> bool" where
  "unimodal x L R \<longleftrightarrow>
     0 < L \<and> L \<le> R \<and> Suc R < length x \<and>
     (\<forall>i<L. x ! i < x ! Suc i) \<and>
     (\<forall>i. L \<le> i \<and> i < R \<longrightarrow> x ! Suc i = x ! i) \<and>
     (\<forall>i. R \<le> i \<and> Suc i < length x \<longrightarrow> x ! Suc i < x ! i)"

subsection \<open>A compressibility curve on a straight line\<close>

text \<open>
  Seven cleaned rows with \<open>e = 5 - 0.75 * log10(stress)\<close>. The cubic spline through
  knots on a straight line is that line, and so is the least-squares polynomial of degree
  four through five of them: \<open>line_deps\<close> is what scipy and numpy return for these rows.
  \<open>ceil_idx\<close> stands for \<open>Data.findStressIdx\<close>: the index of the first row whose stress
  is not below the stress looked for.
\<close>

definition line_cs :: "nat \<Rightarrow> real \<Rightarrow> real" where
  "line_cs nu x = (if nu = 0 then 5 - 3 / 4 * x else if nu = 1 then - 3 / 4 else 0)"

definition ceil_idx :: "data \<Rightarrow> real \<Rightarrow> bool \<Rightarrow> nat option" where
  "ceil_idx d s c =
     Some (length (takeWhile (\<lambda>row. fst row < s) (if c then cleaned d else raw d)))"

definition line_deps :: deps where
  "line_deps = \<lparr>interp = (\<lambda>x y. line_cs), lstsq4 = (\<lambda>x y. (5, - 3 / 4, 0, 0, 0)),
     findStressIdx = ceil_idx\<rparr>"

definition line_rows :: "(real \<times> real) list" where
  "line_rows = [(1, 5), (10, 17 / 4), (100, 7 / 2), (1000, 11 / 4), (10000, 2),
     (100000, 5 / 4), (1000000, 1 / 2)]"

definition line_data :: data where
  "line_data = \<lparr>cleaned = line_rows, raw = line_rows, idxCc = 4 / 3, idxCcInt = 79 / 12,
     sigmaV = 50\<rparr>"

text \<open>
  The same rows with a virgin compression line whose negated slope differs from the
  bisector slope \<open>- 1 / 3\<close> of these rows by \<open>1e-10\<close>.
\<close>

definition near_data :: data where
  "near_data = line_data\<lparr>idxCc := 1 / 3 + 1 / 10 ^ 10, idxCcInt := 55 / 12 + 2 / 10 ^ 10\<rparr>"

subsection \<open>A compressibility curve on a parabola\<close>

text \<open>
  Five cleaned rows whose void ratios, from the second row on, lie on the parabola
  \<open>e = 2 - 0.375 * (log10(stress) - v)^2\<close>. The cubic spline with the not-a-knot end
  conditions through four knots is the cubic through them, here the parabola itself:
  \<open>parab v nu\<close> is what \<open>cs(., nu)\<close> returns for these rows. \<open>parab_curvature v\<close> are the
  100 curvature samples of line 116. With \<open>v = 2\<close> the vertex is the sample 33; with
  \<open>v = 133 / 66\<close> it lies half way between the samples 33 and 34.
\<close>

definition parab :: "real \<Rightarrow> nat \<Rightarrow> real \<Rightarrow> real" where
  "parab v nu t =
     (if nu = 0 then 2 - 3 / 8 * (t - v)\<^sup>2 else if nu = 1 then - 3 / 4 * (t - v)
      else if nu = 2 then - 3 / 4 else 0)"

definition parab_rows :: "real \<Rightarrow> (real \<times> real) list" where
  "parab_rows v = [(1, 2), (10, parab v 0 1), (100, parab v 0 2), (1000, parab v 0 3),
     (10000, parab v 0 4)]"

definition parab_data :: "real \<Rightarrow> data" where
  "parab_data v = \<lparr>cleaned = parab_rows v, raw = parab_rows v, idxCc = 1 / 2, idxCcInt = 7 / 2,
     sigmaV = 100\<rparr>"

definition parab_deps :: "real \<Rightarrow> deps" where
  "parab_deps v = \<lparr>interp = (\<lambda>x y. parab v), lstsq4 = (\<lambda>x y. (0, 0, 0, 0, 0)),
     findStressIdx = ceil_idx\<rparr>"

definition parab_curvature :: "real \<Rightarrow> real list" where
  "parab_curvature v =
     map (\<lambda>t. \<bar>parab v 2 t\<bar> / (1 + (parab v 1 t)\<^sup>2) powr (3 / 2)) (sigmaCS (parab_data v))"

section \<open>Properties of the library functions\<close>

subsection \<open>The local maxima are the middles of the flat peaks\<close>

lemma plateau_end_run:
  "a \<le> k \<Longrightarrow> k < plateau_end x i a \<Longrightarrow> x ! k = x ! i"
proof (induction x i a rule: plateau_end.induct)
  case (1 x i a)
  show ?case
  proof (cases "a < length x - 1 \<and> x ! a = x ! i")
    case True
    then have eq: "plateau_end x i a = plateau_end x i (Suc a)"
      using plateau_end.simps [of x i a] by simp
    show ?thesis
    proof (cases "k = a")
      case True
      with \<open>a < length x - 1 \<and> x ! a = x ! i\<close> show ?thesis by simp
    next
      case False
      with "1.prems" have "Suc a \<le> k" by simp
      with 1 True eq show ?thesis by simp
    qed
  next
    case False
    then have "plateau_end x i a = a"
      using plateau_end.simps [of x i a] by auto
    with "1.prems" show ?thesis by simp
  qed
qed

lemma plateau_end_le: "a \<le> length x - 1 \<Longrightarrow> plateau_end x i a \<le> length x - 1"
proof (induction x i a rule: plateau_end.induct)
  case (1 x i a)
  show ?case
  proof (cases "a < length x - 1 \<and> x ! a = x ! i")
    case True
    then have "plateau_end x i a = plateau_end x i (Suc a)"
      using plateau_end.simps [of x i a] by simp
    with 1 True show ?thesis by simp
  next
    case False
    then have "plateau_end x i a = a"
      using plateau_end.simps [of x i a] by auto
    with "1.prems" show ?thesis by simp
  qed
qed

lemma local_maxima_from_peak:
  "0 < i \<Longrightarrow> p \<in> set (local_maxima_from x i) \<Longrightarrow>
     \<exists>l r. i \<le> l \<and> flat_peak x l r \<and> p = (l + r) div 2"
proof (induction x i rule: local_maxima_from.induct)
  case (1 x i)
  let ?a = "plateau_end x i (Suc i)"
  from "1.prems" have lt: "i < length x - 1"
    using local_maxima_from.simps [of x i] by (auto split: if_splits)
  show ?case
  proof (cases "x ! (i - 1) < x ! i")
    case False
    with lt have "local_maxima_from x i = local_maxima_from x (Suc i)"
      using local_maxima_from.simps [of x i] by simp
    with "1.IH"(3) [OF lt False] "1.prems" obtain l r
      where "Suc i \<le> l" "flat_peak x l r" "p = (l + r) div 2" by auto
    then show ?thesis by (intro exI [of _ l] exI [of _ r]) simp
  next
    case rise: True
    show ?thesis
    proof (cases "x ! ?a < x ! i")
      case False
      with lt rise have "local_maxima_from x i = local_maxima_from x (Suc i)"
        using local_maxima_from.simps [of x i] by (simp add: Let_def)
      with "1.IH"(2) [OF lt rise refl False] "1.prems" obtain l r
        where "Suc i \<le> l" "flat_peak x l r" "p = (l + r) div 2" by auto
      then show ?thesis by (intro exI [of _ l] exI [of _ r]) simp
    next
      case fall: True
      with lt rise have eq: "local_maxima_from x i =
          ((i + (?a - 1)) div 2) # local_maxima_from x (Suc ?a)"
        using local_maxima_from.simps [of x i] by (simp add: Let_def)
      have ge: "Suc i \<le> ?a" by (rule plateau_end_ge)
      have le: "?a \<le> length x - 1" using lt by (intro plateau_end_le) simp
      show ?thesis
      proof (cases "p = (i + (?a - 1)) div 2")
        case True
        have "flat_peak x i (?a - 1)"
          unfolding flat_peak_def
        proof (intro conjI allI impI)
          show "0 < i" by (rule "1.prems")
          show "i \<le> ?a - 1" using ge by simp
          show "Suc (?a - 1) < length x" using ge le lt by simp
          show "x ! (i - 1) < x ! i" by (rule rise)
          show "x ! Suc (?a - 1) < x ! i" using fall ge by simp
        next
          fix k assume k: "i \<le> k \<and> k \<le> ?a - 1"
          show "x ! k = x ! i"
          proof (cases "k = i")
            case False
            with k ge have "Suc i \<le> k" "k < ?a" by auto
            then show ?thesis by (rule plateau_end_run)
          qed simp
        qed
        with True show ?thesis by (intro exI [of _ i] exI [of _ "?a - 1"]) simp
      next
        case False
        with eq "1.prems" have "p \<in> set (local_maxima_from x (Suc ?a))" by simp
        with "1.IH"(1) [OF lt rise refl fall] obtain l r
          where "Suc ?a \<le> l" "flat_peak x l r" "p = (l + r) div 2" by auto
        with ge show ?thesis by (intro exI [of _ l] exI [of _ r]) simp
      qed
    qed
  qed
qed


lemma plateau_end_eq:
  "a \<le> b \<Longrightarrow> b \<le> length x - 1 \<Longrightarrow> (\<forall>k. a \<le> k \<and> k < b \<longrightarrow> x ! k = x ! i) \<Longrightarrow>
     b = length x - 1 \<or> x ! b \<noteq> x ! i \<Longrightarrow> plateau_end x i a = b"
proof (induction x i a rule: plateau_end.induct)
  case (1 x i a)
  show ?case
  proof (cases "a = b")
    case True
    with "1.prems"(4) have "\<not> (a < length x - 1 \<and> x ! a = x ! i)" by auto
    then have "plateau_end x i a = a" using plateau_end.simps [of x i a] by auto
    with True show ?thesis by simp
  next
    case False
    with "1.prems" have c: "a < length x - 1 \<and> x ! a = x ! i" by auto
    then have "plateau_end x i a = plateau_end x i (Suc a)"
      using plateau_end.simps [of x i a] by simp
    moreover have "plateau_end x i (Suc a) = b"
      using c False "1.prems" by (intro "1.IH") auto
    ultimately show ?thesis by simp
  qed
qed

lemma local_maxima_from_complete:
  "flat_peak x l r \<Longrightarrow> 0 < i \<Longrightarrow> i \<le> l \<Longrightarrow> (l + r) div 2 \<in> set (local_maxima_from x i)"
proof (induction x i rule: local_maxima_from.induct)
  case (1 x i)
  let ?a = "plateau_end x i (Suc i)"
  from "1.prems"(1) have fp: "0 < l" "l \<le> r" "Suc r < length x" "x ! (l - 1) < x ! l"
    "\<And>k. l \<le> k \<Longrightarrow> k \<le> r \<Longrightarrow> x ! k = x ! l" "x ! Suc r < x ! l"
    unfolding flat_peak_def by blast+
  from fp(2) fp(3) "1.prems"(3) have lt: "i < length x - 1" by simp
  show ?case
  proof (cases "i = l")
    case True
    have "plateau_end x l (Suc l) = Suc r"
    proof (rule plateau_end_eq)
      show "Suc l \<le> Suc r" using fp(2) by simp
      show "Suc r \<le> length x - 1" using fp(3) by simp
      show "\<forall>k. Suc l \<le> k \<and> k < Suc r \<longrightarrow> x ! k = x ! l"
      proof (intro allI impI)
        fix k assume "Suc l \<le> k \<and> k < Suc r"
        then show "x ! k = x ! l" by (intro fp(5)) auto
      qed
      show "Suc r = length x - 1 \<or> x ! Suc r \<noteq> x ! l" using fp(6) by simp
    qed
    with True fp(4) fp(6) lt have "local_maxima_from x i =
        ((l + r) div 2) # local_maxima_from x (Suc (Suc r))"
      using local_maxima_from.simps [of x i] by (simp add: Let_def)
    then show ?thesis by simp
  next
    case False
    with "1.prems" have il: "Suc i \<le> l" by simp
    show ?thesis
    proof (cases "x ! (i - 1) < x ! i")
      case False
      with lt have "local_maxima_from x i = local_maxima_from x (Suc i)"
        using local_maxima_from.simps [of x i] by simp
      with "1.IH"(3) [OF lt False "1.prems"(1)] il show ?thesis by simp
    next
      case rise: True
      show ?thesis
      proof (cases "x ! ?a < x ! i")
        case False
        with lt rise have "local_maxima_from x i = local_maxima_from x (Suc i)"
          using local_maxima_from.simps [of x i] by (simp add: Let_def)
        with "1.IH"(2) [OF lt rise refl False "1.prems"(1)] il show ?thesis by simp
      next
        case fall: True
        with lt rise have eq: "local_maxima_from x i =
            ((i + (?a - 1)) div 2) # local_maxima_from x (Suc ?a)"
          using local_maxima_from.simps [of x i] by (simp add: Let_def)
        have ge: "Suc i \<le> ?a" by (rule plateau_end_ge)
        have run: "x ! k = x ! i" if "i \<le> k" "k < ?a" for k
        proof (cases "k = i")
          case False
          with that have "Suc i \<le> k" by simp
          then show ?thesis using that(2) by (rule plateau_end_run)
        qed simp
        have "Suc ?a \<le> l"
        proof (rule ccontr)
          assume "\<not> Suc ?a \<le> l"
          then have la: "l \<le> ?a" by simp
          from il have "x ! (l - 1) = x ! i" using la by (intro run) auto
          moreover have "x ! l \<le> x ! i"
          proof (cases "l = ?a")
            case True
            with fall show ?thesis by simp
          next
            case False
            with la il have "x ! l = x ! i" by (intro run) auto
            then show ?thesis by simp
          qed
          ultimately show False using fp(4) by simp
        qed
        with "1.IH"(1) [OF lt rise refl fall "1.prems"(1)] eq show ?thesis by simp
      qed
    qed
  qed
qed

lemma local_maxima_iff:
  "p \<in> set (local_maxima x) \<longleftrightarrow> (\<exists>l r. flat_peak x l r \<and> p = (l + r) div 2)"
proof
  assume "p \<in> set (local_maxima x)"
  then show "\<exists>l r. flat_peak x l r \<and> p = (l + r) div 2"
    using local_maxima_from_peak [of 1 p x] by (auto simp: local_maxima_def)
next
  assume "\<exists>l r. flat_peak x l r \<and> p = (l + r) div 2"
  then obtain l r where "flat_peak x l r" "p = (l + r) div 2" by auto
  moreover from this have "1 \<le> l" unfolding flat_peak_def by linarith
  ultimately show "p \<in> set (local_maxima x)"
    using local_maxima_from_complete [of x l r 1] by (simp add: local_maxima_def)
qed

subsection \<open>A distance that no two peaks reach leaves the highest peak alone\<close>

lemma clear_left_length [simp]: "length (clear_left peaks d j k keep) = length keep"
  by (induction k arbitrary: keep) auto

lemma clear_left_nth:
  "(\<forall>k<k0. int (peaks ! j) - int (peaks ! k) < int d) \<Longrightarrow> k0 \<le> length keep \<Longrightarrow>
     i < length keep \<Longrightarrow>
     clear_left peaks d j k0 keep ! i = (if i < k0 then False else keep ! i)"
proof (induction k0 arbitrary: keep)
  case 0
  then show ?case by simp
next
  case (Suc k0)
  from Suc.prems have "clear_left peaks d j (Suc k0) keep = clear_left peaks d j k0 (keep[k0 := False])"
    by simp
  moreover have "clear_left peaks d j k0 (keep[k0 := False]) ! i =
      (if i < k0 then False else (keep[k0 := False]) ! i)"
    using Suc.prems by (intro Suc.IH) auto
  ultimately show ?case using Suc.prems by (auto simp: nth_list_update less_Suc_eq)
qed

lemma clear_right_length [simp]: "length (clear_right peaks d j k keep) = length keep"
proof (induction peaks d j k keep rule: clear_right.induct)
  case (1 peaks d j k keep)
  then show ?case using clear_right.simps [of peaks d j k keep] by auto
qed

lemma clear_right_nth:
  "(\<forall>k<length peaks. int (peaks ! k) - int (peaks ! j) < int d) \<Longrightarrow>
     length keep = length peaks \<Longrightarrow> i < length keep \<Longrightarrow>
     clear_right peaks d j k0 keep ! i = (if k0 \<le> i then False else keep ! i)"
proof (induction peaks d j k0 keep rule: clear_right.induct)
  case (1 peaks d j k keep)
  show ?case
  proof (cases "k < length peaks")
    case True
    with "1.prems" have c: "k < length peaks \<and> int (peaks ! k) - int (peaks ! j) < int d" by simp
    then have "clear_right peaks d j k keep = clear_right peaks d j (Suc k) (keep[k := False])"
      using clear_right.simps [of peaks d j k keep] by simp
    moreover have "clear_right peaks d j (Suc k) (keep[k := False]) ! i =
        (if Suc k \<le> i then False else (keep[k := False]) ! i)"
      using c "1.prems" by (intro "1.IH") auto
    ultimately show ?thesis using "1.prems" True by (auto simp: nth_list_update)
  next
    case False
    then have "clear_right peaks d j k keep = keep"
      using clear_right.simps [of peaks d j k keep] by simp
    with False "1.prems" show ?thesis by simp
  qed
qed

lemma clear_both:
  assumes far: "\<forall>k<length peaks. \<forall>k'<length peaks. int (peaks ! k) - int (peaks ! k') < int d"
    and j: "j < length peaks" and len: "length keep = length peaks" and kj: "keep ! j"
  shows "clear_right peaks d j (Suc j) (clear_left peaks d j j keep) = onehot (length peaks) j"
proof (rule nth_equalityI)
  show "length (clear_right peaks d j (Suc j) (clear_left peaks d j j keep)) =
      length (onehot (length peaks) j)"
    using len by (simp add: onehot_def)
next
  fix i assume "i < length (clear_right peaks d j (Suc j) (clear_left peaks d j j keep))"
  then have i: "i < length peaks" using len by simp
  have l: "clear_left peaks d j j keep ! i = (if i < j then False else keep ! i)"
    using far j len i by (intro clear_left_nth) auto
  have "clear_right peaks d j (Suc j) (clear_left peaks d j j keep) ! i =
      (if Suc j \<le> i then False else clear_left peaks d j j keep ! i)"
    using far j len i by (intro clear_right_nth) auto
  with l kj i j show "clear_right peaks d j (Suc j) (clear_left peaks d j j keep) ! i =
      onehot (length peaks) j ! i"
    by (cases "i = j") (auto simp: onehot_def nth_list_update)
qed

lemma select_loop_onehot:
  assumes far: "\<forall>k<length peaks. \<forall>k'<length peaks. int (peaks ! k) - int (peaks ! k') < int d"
    and j: "j < length peaks"
  shows "set js \<subseteq> {..<length peaks} \<Longrightarrow>
     select_loop peaks d js (onehot (length peaks) j) = onehot (length peaks) j"
proof (induction js)
  case Nil
  then show ?case by simp
next
  case (Cons a js)
  show ?case
  proof (cases "a = j")
    case True
    have "clear_right peaks d j (Suc j) (clear_left peaks d j j (onehot (length peaks) j)) =
        onehot (length peaks) j"
      using far j by (intro clear_both) (auto simp: onehot_def)
    with True Cons show ?thesis by simp
  next
    case False
    with Cons.prems j have "\<not> onehot (length peaks) j ! a" by (simp add: onehot_def)
    with Cons show ?thesis by simp
  qed
qed

lemma filter_zip_all_False:
  "length ps = n \<Longrightarrow> map fst (filter snd (zip ps (replicate n False))) = []"
  by (induction ps arbitrary: n) auto

lemma filter_zip_onehot:
  "j < length ps \<Longrightarrow> map fst (filter snd (zip ps (onehot (length ps) j))) = [ps ! j]"
proof (induction ps arbitrary: j)
  case Nil
  then show ?case by simp
next
  case (Cons p ps)
  show ?case
  proof (cases j)
    case 0
    then show ?thesis by (simp add: onehot_def filter_zip_all_False)
  next
    case (Suc j')
    with Cons.prems have "j' < length ps" by simp
    from Cons.IH [OF this] Suc show ?thesis by (simp add: onehot_def)
  qed
qed

lemma argsort_length [simp]: "length (argsort xs) = length xs"
  by (simp add: argsort_def)

lemma argsort_set: "set (argsort xs) = {..<length xs}"
proof -
  have "map snd (zip xs [0..<length xs]) = [0..<length xs]"
    by (rule map_snd_zip) simp
  then have "snd ` set (zip xs [0..<length xs]) = set [0..<length xs]"
    by (metis set_map)
  then show ?thesis by (auto simp: argsort_def)
qed

lemma argsort_last_max:
  assumes "xs \<noteq> []" and k: "k < length xs"
  shows "xs ! k \<le> xs ! last (argsort xs)"
proof -
  let ?zs = "zip xs [0..<length xs]"
  let ?s = "sort_key fst ?zs"
  have ne: "?s \<noteq> []" using assms by (metis length_0_conv length_sort length_zip length_upt min.idem diff_zero)
  have zs: "\<And>z. z \<in> set ?zs \<Longrightarrow> fst z = xs ! snd z"
    by (auto simp: set_zip)
  have lastin: "last ?s \<in> set ?zs" using ne last_in_set [OF ne] by simp
  have "last (argsort xs) = snd (last ?s)" using ne by (simp add: argsort_def last_map)
  with zs [OF lastin] have e: "xs ! last (argsort xs) = fst (last ?s)" by simp
  have "(xs ! k, k) \<in> set ?s" using k by (auto simp: set_zip)
  then obtain n where n: "n < length ?s" "?s ! n = (xs ! k, k)"
    unfolding in_set_conv_nth by blast
  have srt: "sorted (map fst ?s)" by (rule sorted_sort_key)
  have "map fst ?s ! n \<le> map fst ?s ! (length ?s - 1)"
    using n(1) by (intro sorted_nth_mono [OF srt]) auto
  then have "xs ! k \<le> fst (last ?s)" using n ne by (simp add: last_conv_nth)
  with e show ?thesis by simp
qed

lemma local_maxima_lt: "p \<in> set (local_maxima x) \<Longrightarrow> 0 < p \<and> Suc p < length x"
proof -
  assume "p \<in> set (local_maxima x)"
  then obtain l r where "flat_peak x l r" "p = (l + r) div 2"
    unfolding local_maxima_iff by blast
  then have "0 < l" "l \<le> r" "Suc r < length x" "p = (l + r) div 2"
    unfolding flat_peak_def by blast+
  then show ?thesis by linarith
qed

lemma find_peaks_far:
  assumes "length x \<le> d"
  shows "find_peaks x d =
     (if local_maxima x = [] then []
      else [local_maxima x ! last (argsort (map (\<lambda>p. x ! p) (local_maxima x)))])"
proof (cases "local_maxima x = []")
  case True
  then show ?thesis by (simp add: find_peaks_def select_by_peak_distance_def argsort_def)
next
  case False
  let ?ps = "local_maxima x"
  let ?pr = "map (\<lambda>p. x ! p) ?ps"
  let ?j = "last (argsort ?pr)"
  have ane: "argsort ?pr \<noteq> []" using False by (metis argsort_length length_0_conv length_map)
  have jin: "?j \<in> set (argsort ?pr)" using ane by simp
  then have j: "?j < length ?ps" by (simp add: argsort_set)
  have far: "\<forall>k<length ?ps. \<forall>k'<length ?ps. int (?ps ! k) - int (?ps ! k') < int d"
  proof (intro allI impI)
    fix k k' assume "k < length ?ps" "k' < length ?ps"
    then have "?ps ! k \<in> set ?ps" by simp
    then have "Suc (?ps ! k) < length x" using local_maxima_lt by blast
    with assms show "int (?ps ! k) - int (?ps ! k') < int d" by simp
  qed
  have rv: "rev (argsort ?pr) = ?j # rev (butlast (argsort ?pr))"
    using ane by (metis append_butlast_last_id rev.simps(2) rev_append rev_singleton_conv append_Cons append_Nil rev_rev_ident)
  have sub: "set (rev (butlast (argsort ?pr))) \<subseteq> {..<length ?ps}"
    using argsort_set [of ?pr] by (auto dest: in_set_butlastD)
  have "select_by_peak_distance ?ps ?pr d =
      select_loop ?ps d (rev (butlast (argsort ?pr)))
        (clear_right ?ps d ?j (Suc ?j) (clear_left ?ps d ?j ?j (replicate (length ?ps) True)))"
    unfolding select_by_peak_distance_def rv using j by simp
  also have "clear_right ?ps d ?j (Suc ?j) (clear_left ?ps d ?j ?j (replicate (length ?ps) True)) =
      onehot (length ?ps) ?j"
    using far j by (intro clear_both) auto
  also have "select_loop ?ps d (rev (butlast (argsort ?pr))) (onehot (length ?ps) ?j) =
      onehot (length ?ps) ?j"
    using far j sub by (intro select_loop_onehot)
  finally have "select_by_peak_distance ?ps ?pr d = onehot (length ?ps) ?j" .
  then have "find_peaks x d = [?ps ! ?j]"
    using j by (simp add: find_peaks_def Let_def filter_zip_onehot)
  with False show ?thesis by simp
qed

subsection \<open>The bisector slope\<close>

lemma slopeBisect_closed: "slopeBisect m = m / (1 + sqrt (1 + m\<^sup>2))"
proof -
  have pos: "0 < sqrt (1 + m\<^sup>2)" by (simp add: add_pos_nonneg)
  have "slopeBisect m = sin (arctan m) / (cos (arctan m) + 1)"
    unfolding slopeBisect_def using tan_half [of "0.5 * arctan m"] by simp
  also have "\<dots> = (m / sqrt (1 + m\<^sup>2)) / (1 / sqrt (1 + m\<^sup>2) + 1)"
    by (simp add: sin_arctan cos_arctan)
  also have "\<dots> = m / (1 + sqrt (1 + m\<^sup>2))"
    using pos by (simp add: field_simps)
  finally show ?thesis .
qed

lemma slopeBisect_example: "slopeBisect (- 3 / 4) = - 1 / 3"
proof -
  have "sqrt (1 + (- 3 / 4 :: real)\<^sup>2) = 5 / 4"
    by (rule real_sqrt_unique) (simp_all add: power2_eq_square)
  then show ?thesis unfolding slopeBisect_closed by simp
qed

lemma bisect_not_mean: "m \<noteq> 0 \<Longrightarrow> slopeBisect m \<noteq> m / 2"
proof -
  assume m: "m \<noteq> 0"
  then have "1 < 1 + m\<^sup>2" by simp
  then have "1 < sqrt (1 + m\<^sup>2)" using real_sqrt_gt_1_iff by blast
  then have d: "2 < 1 + sqrt (1 + m\<^sup>2)" by simp
  show ?thesis
  proof
    assume "slopeBisect m = m / 2"
    then have "m / (1 + sqrt (1 + m\<^sup>2)) = m / 2" by (simp add: slopeBisect_closed)
    moreover from d have "1 + sqrt (1 + m\<^sup>2) \<noteq> 0" by linarith
    ultimately have "m * 2 = m * (1 + sqrt (1 + m\<^sup>2))"
      using frac_eq_eq [of "1 + sqrt (1 + m\<^sup>2)" 2 m m] by fastforce
    with m have "1 + sqrt (1 + m\<^sup>2) = 2" by simp
    with d show False by simp
  qed
qed

subsection \<open>np.argmax returns the first index of the greatest sample\<close>

lemma argmax_aux_const: "\<forall>v\<in>set vs. \<not> bv < v \<Longrightarrow> argmax_aux bi bv i vs = bi"
  by (induction vs arbitrary: i) auto

lemma argmax_aux_props:
  "vs = drop i xs \<Longrightarrow> i \<le> length xs \<Longrightarrow> bi < i \<Longrightarrow> bv = xs ! bi \<Longrightarrow>
     (\<forall>j<i. xs ! j \<le> xs ! bi) \<Longrightarrow> (\<forall>j<bi. xs ! j < xs ! bi) \<Longrightarrow>
     argmax_aux bi bv i vs < length xs \<and>
     (\<forall>j<length xs. xs ! j \<le> xs ! argmax_aux bi bv i vs) \<and>
     (\<forall>j<argmax_aux bi bv i vs. xs ! j < xs ! argmax_aux bi bv i vs)"
proof (induction vs arbitrary: i bi bv)
  case Nil
  then show ?case by simp
next
  case (Cons v vs)
  from Cons.prems(1,2) have i: "i < length xs"
    by (metis drop_all leI list.distinct(1))
  with Cons.prems(1) have v: "v = xs ! i" and vs: "vs = drop (Suc i) xs"
    by (metis Cons_nth_drop_Suc list.inject)+
  show ?case
  proof (cases "bv < v")
    case True
    have "argmax_aux i v (Suc i) vs < length xs \<and>
     (\<forall>j<length xs. xs ! j \<le> xs ! argmax_aux i v (Suc i) vs) \<and>
     (\<forall>j<argmax_aux i v (Suc i) vs. xs ! j < xs ! argmax_aux i v (Suc i) vs)"
    proof (rule Cons.IH)
      show "vs = drop (Suc i) xs" by (rule vs)
      show "Suc i \<le> length xs" using i by simp
      show "i < Suc i" by simp
      show "v = xs ! i" by (rule v)
      show "\<forall>j<Suc i. xs ! j \<le> xs ! i"
        using Cons.prems(4,5) True v by (auto simp: less_Suc_eq intro: order.trans less_imp_le)
      show "\<forall>j<i. xs ! j < xs ! i"
        using Cons.prems(4,5) True v by (auto intro: le_less_trans)
    qed
    with True show ?thesis by simp
  next
    case False
    have "argmax_aux bi bv (Suc i) vs < length xs \<and>
     (\<forall>j<length xs. xs ! j \<le> xs ! argmax_aux bi bv (Suc i) vs) \<and>
     (\<forall>j<argmax_aux bi bv (Suc i) vs. xs ! j < xs ! argmax_aux bi bv (Suc i) vs)"
    proof (rule Cons.IH)
      show "vs = drop (Suc i) xs" by (rule vs)
      show "Suc i \<le> length xs" using i by simp
      show "bi < Suc i" using Cons.prems(3) by simp
      show "bv = xs ! bi" by (rule Cons.prems(4))
      show "\<forall>j<Suc i. xs ! j \<le> xs ! bi"
        using Cons.prems(4,5) False v by (auto simp: less_Suc_eq)
      show "\<forall>j<bi. xs ! j < xs ! bi" by (rule Cons.prems(6))
    qed
    with False show ?thesis by simp
  qed
qed

lemma argmax_props:
  assumes "argmax xs = Inr r"
  shows "r < length xs \<and> (\<forall>j<length xs. xs ! j \<le> xs ! r) \<and> (\<forall>j<r. xs ! j < xs ! r)"
proof -
  from assms obtain v vs where xs: "xs = v # vs" and r: "r = argmax_aux 0 v 1 vs"
    by (auto simp: argmax_def split: list.splits)
  have "argmax_aux 0 v 1 vs < length xs \<and>
     (\<forall>j<length xs. xs ! j \<le> xs ! argmax_aux 0 v 1 vs) \<and>
     (\<forall>j<argmax_aux 0 v 1 vs. xs ! j < xs ! argmax_aux 0 v 1 vs)"
    by (rule argmax_aux_props) (simp_all add: xs)
  with r show ?thesis by simp
qed

lemma argmax_Inl: "argmax xs = Inl err \<Longrightarrow> xs = []"
  by (auto simp: argmax_def split: list.splits)

section \<open>The method, stage by stage\<close>

lemma CubicSpline_Inr:
  "CubicSpline ip fin x y = Inr cs \<Longrightarrow>
     cs = ip x y \<and> fin \<and> length x = length y \<and> 2 \<le> length x \<and> strictly_increasing x"
  by (auto simp: CubicSpline_def split: if_splits)

lemma CubicSpline_Inl: "CubicSpline ip fin x y = Inl err \<Longrightarrow> err = ValueError"
  by (auto simp: CubicSpline_def split: if_splits)

lemma getSigmaP_Inr:
  assumes "getSigmaP dp self mcp r2f ll = Inr self'"
  shows "\<exists>sMC0 eMC0.
     CubicSpline (interp dp) (list_all (\<lambda>s. 0 < s) (stress1 (data self)))
        (sigmaLog (data self)) (e1 (data self)) = Inr (cs_of dp (data self)) \<and>
     mcp_search dp (data self) (cs_of dp (data self)) r2f ll = Inr (sMC0, eMC0) \<and>
     self' = (case mcp of
                None \<Rightarrow> bisector_vcl (cs_of dp (data self)) self sMC0 eMC0
              | Some m \<Rightarrow> bisector_vcl (cs_of dp (data self)) self m
                           (cs_of dp (data self) 0 (log 10 m)))"
proof -
  from assms obtain cs where cs: "CubicSpline (interp dp) (list_all (\<lambda>s. 0 < s) (stress1 (data self)))
        (sigmaLog (data self)) (e1 (data self)) = Inr cs"
    by (auto simp: getSigmaP_def split: sum.splits)
  then have eq: "cs = cs_of dp (data self)"
    by (auto simp: cs_of_def dest: CubicSpline_Inr)
  from assms cs obtain sMC0 eMC0 where s: "mcp_search dp (data self) cs r2f ll = Inr (sMC0, eMC0)"
    by (auto simp: getSigmaP_def split: sum.splits)
  from assms cs s have "self' = (case mcp of
                None \<Rightarrow> bisector_vcl cs self sMC0 eMC0
              | Some m \<Rightarrow> bisector_vcl cs self m (cs 0 (log 10 m)))"
    by (auto simp: getSigmaP_def split: option.splits)
  with cs s eq show ?thesis by blast
qed

lemma getSigmaP_Inl:
  assumes "getSigmaP dp self mcp r2f ll = Inl err"
  shows "CubicSpline (interp dp) (list_all (\<lambda>s. 0 < s) (stress1 (data self)))
        (sigmaLog (data self)) (e1 (data self)) = Inl err \<or>
     (CubicSpline (interp dp) (list_all (\<lambda>s. 0 < s) (stress1 (data self)))
        (sigmaLog (data self)) (e1 (data self)) = Inr (cs_of dp (data self)) \<and>
      mcp_search dp (data self) (cs_of dp (data self)) r2f ll = Inl err)"
proof (cases "CubicSpline (interp dp) (list_all (\<lambda>s. 0 < s) (stress1 (data self)))
        (sigmaLog (data self)) (e1 (data self))")
  case (Inl a)
  with assms show ?thesis by (simp add: getSigmaP_def)
next
  case (Inr cs)
  then have eq: "cs = cs_of dp (data self)"
    by (auto simp: cs_of_def dest: CubicSpline_Inr)
  from assms Inr have "mcp_search dp (data self) cs r2f ll = Inl err"
    by (auto simp: getSigmaP_def split: sum.splits option.splits)
  with Inr eq show ?thesis by simp
qed

lemma getSigmaP_eval:
  assumes "CubicSpline (interp dp) (list_all (\<lambda>s. 0 < s) (stress1 (data self)))
        (sigmaLog (data self)) (e1 (data self)) = Inr cs"
    and "mcp_search dp (data self) cs r2f ll = Inr (sMC0, eMC0)"
  shows "getSigmaP dp self mcp r2f ll = Inr (case mcp of
                None \<Rightarrow> bisector_vcl cs self sMC0 eMC0
              | Some m \<Rightarrow> bisector_vcl cs self m (cs 0 (log 10 m)))"
  using assms by (simp add: getSigmaP_def split: option.splits)

lemma bisector_vcl_sel:
  "data (bisector_vcl cs self s e) = data self"
  "sigmaMC (bisector_vcl cs self s e) = Some s"
  "eMC (bisector_vcl cs self s e) = Some e"
  "sigmaP (bisector_vcl cs self s e) =
     Some (fst (intersect (data self) (log 10 s) e (slopeBisect (slopeMP cs s))))"
  "eSigmaP (bisector_vcl cs self s e) =
     Some (fst (snd (intersect (data self) (log 10 s) e (slopeBisect (slopeMP cs s)))))"
  "ocr (bisector_vcl cs self s e) =
     Some (snd (snd (intersect (data self) (log 10 s) e (slopeBisect (slopeMP cs s)))))"
  by (simp_all add: bisector_vcl_def Let_def split: prod.splits)

lemma bisector_vcl_fresh:
  "bisector_vcl cs (self\<lparr>sigmaMC := a, eMC := b, sigmaP := c, eSigmaP := d, ocr := e\<rparr>) s ev =
     bisector_vcl cs self s ev"
  by (simp add: bisector_vcl_def Let_def split: prod.splits)

subsection \<open>Evaluating the method\<close>

lemma log10_values:
  "log 10 10 = (1::real)" "log 10 100 = (2::real)" "log 10 1000 = (3::real)"
  "log 10 10000 = (4::real)" "log 10 100000 = (5::real)" "log 10 1000000 = (6::real)"
proof -
  have p: "log 10 ((10::real) ^ n) = real n" for n by (rule log_pow_cancel) simp_all
  show "log 10 10 = (1::real)" by simp
  show "log 10 100 = (2::real)" using p [of 2] by simp
  show "log 10 1000 = (3::real)" using p [of 3] by simp
  show "log 10 10000 = (4::real)" using p [of 4] by simp
  show "log 10 100000 = (5::real)" using p [of 5] by simp
  show "log 10 1000000 = (6::real)" using p [of 6] by simp
qed

lemma linspace_length [simp]: "length (linspace a b n) = n"
  by (simp add: linspace_def)

lemma linspace_nth: "i < n \<Longrightarrow> linspace a b n ! i = a + real i * ((b - a) / real (n - 1))"
  by (simp add: linspace_def)

lemma curvature_of_zero [simp]: "curvature_of 0 f = 0"
  by (simp add: curvature_of_def)

lemma argmax_all_equal: "xs \<noteq> [] \<Longrightarrow> \<forall>v\<in>set xs. v = c \<Longrightarrow> argmax xs = Inr 0"
  by (cases xs) (auto simp: argmax_def intro: argmax_aux_const)

lemma fop_mcp_line:
  assumes fit: "lstsq4 dp (map (\<lambda>x. transform ll x False) sigmaFOP) eFOP = (p0, p1, 0, 0, 0)"
    and s: "sigmaFOP = py_slice (findStressIdx dp d lo True) (findStressIdx dp d hi True)
              (map fst (cleaned d))"
    and e: "eFOP = py_slice (findStressIdx dp d lo True) (findStressIdx dp d hi True)
              (map snd (cleaned d))"
    and ne: "sigmaFOP \<noteq> []"
  shows "fop_mcp dp d (lo, hi) ll =
     Inr (transform ll (transform ll (hd sigmaFOP) False) True,
          p0 + p1 * transform ll (hd sigmaFOP) False)"
proof -
  let ?xs = "fop_samples ll sigmaFOP"
  have len: "length ?xs = 1000" by (simp add: fop_samples_def)
  have x0: "?xs ! 0 = transform ll (hd sigmaFOP) False"
    by (simp add: fop_samples_def linspace_nth)
  have c: "fop_curvature (p0, p1, 0, 0, 0) ?xs = map (\<lambda>x. 0) ?xs"
    by (simp add: fop_curvature_def)
  have "argmax (map (\<lambda>x. 0::real) ?xs) = Inr 0"
    using len by (intro argmax_all_equal) auto
  with c have a: "argmax (fop_curvature (p0, p1, 0, 0, 0) ?xs) = Inr 0" by simp
  have pf: "polyfit (lstsq4 dp) (map (\<lambda>x. transform ll x False) sigmaFOP) eFOP =
      Inr (p0, p1, 0, 0, 0)"
    using ne fit by (simp add: polyfit_def)
  have y0: "map (\<lambda>x. polyval x [p0, p1, 0, 0, 0]) ?xs ! 0 = p0 + p1 * transform ll (hd sigmaFOP) False"
    using len x0 by (simp add: polyval_def)
  show ?thesis
    unfolding fop_mcp_def Let_def fst_conv snd_conv s [symmetric] e [symmetric]
    using pf a x0 y0 by simp
qed

lemma log10_powr [simp]: "log 10 (10 powr t) = t"
  by (rule log_powr_cancel) simp_all

subsection \<open>The method on the straight line, with a polynomial fit\<close>

lemma line_spline:
  "CubicSpline (interp line_deps) (list_all (\<lambda>s. 0 < s) (stress1 line_data))
     (sigmaLog line_data) (e1 line_data) = Inr line_cs"
  by (simp add: CubicSpline_def line_deps_def line_data_def line_rows_def stress1_def
      sigmaLog_def e1_def log10_values)

lemma line_fop:
  "mcp_search line_deps line_data line_cs (Some (10, 1000000)) False = Inr (10, 17 / 4)"
proof -
  have sl: "py_slice (findStressIdx line_deps line_data 10 True)
      (findStressIdx line_deps line_data 1000000 True) (map fst (cleaned line_data)) =
      [10, 100, 1000, 10000, 100000]"
    by (simp add: py_slice_def line_deps_def ceil_idx_def line_data_def line_rows_def)
  have "fop_mcp line_deps line_data (10, 1000000) False =
     Inr (transform False (transform False (hd [10, 100, 1000, 10000, 100000]) False) True,
          5 + (- 3 / 4) * transform False (hd [10, 100, 1000, 10000, 100000]) False)"
    by (rule fop_mcp_line [where eFOP = "py_slice (findStressIdx line_deps line_data 10 True)
      (findStressIdx line_deps line_data 1000000 True) (map snd (cleaned line_data))"])
      (simp_all add: sl, simp add: line_deps_def)
  then show ?thesis by (simp add: mcp_search_def transform_def)
qed

lemma line_intersect:
  "intersect line_data 1 (17 / 4) (- 1 / 3) = (100, 47 / 12, 2)"
proof -
  have "(17 / 4 - - 1 / 3 * 1 - idxCcInt line_data) / (- idxCc line_data - - 1 / 3) = (2::real)"
    by (simp add: line_data_def)
  then show ?thesis
    unfolding intersect_def Let_def by (simp add: log10_values line_data_def)
qed

lemma line_result:
  "getSigmaP line_deps (init line_data) None (Some (10, 1000000)) False =
     Inr \<lparr>data = line_data, sigmaMC = Some 10, eMC = Some (17 / 4), sigmaP = Some 100,
          eSigmaP = Some (47 / 12), ocr = Some 2\<rparr>"
proof -
  have "getSigmaP line_deps (init line_data) None (Some (10, 1000000)) False =
      Inr (bisector_vcl line_cs (init line_data) 10 (17 / 4))"
    using getSigmaP_eval [of line_deps "init line_data" line_cs "Some (10, 1000000)" False 10 "17 / 4" None]
      line_spline line_fop by (simp add: init_def)
  moreover have "slopeBisect (slopeMP line_cs 10) = - 1 / 3"
    using slopeBisect_example by (simp add: slopeMP_def line_cs_def)
  ultimately show ?thesis
    using line_intersect by (simp add: bisector_vcl_def Let_def log10_values init_def)
qed

subsection \<open>What a call can raise, and what it leaves alone\<close>

lemma spline_mcp_Inl: "spline_mcp cs xs = Inl err \<Longrightarrow> err = IndexError"
  by (auto simp: spline_mcp_def Let_def split: list.splits)

lemma fop_mcp_Inl: "fop_mcp dp d r ll = Inl err \<Longrightarrow> err = TypeError \<or> err = ValueError"
  by (auto simp: fop_mcp_def Let_def polyfit_def argmax_def split: sum.splits if_splits list.splits prod.splits)

lemma mcp_search_Inl:
  "mcp_search dp d cs r2f ll = Inl err \<Longrightarrow> err = IndexError \<or> err = TypeError \<or> err = ValueError"
  by (auto simp: mcp_search_def split: option.splits dest: spline_mcp_Inl fop_mcp_Inl)

lemma getSigmaP_errors:
  assumes "getSigmaP dp self mcp r2f ll = Inl err"
  shows "err = IndexError \<or> err = ValueError \<or> err = TypeError"
  using getSigmaP_Inl [OF assms] by (auto dest: CubicSpline_Inl mcp_search_Inl)

lemma getSigmaP_fresh:
  "getSigmaP dp (self\<lparr>sigmaMC := a, eMC := b, sigmaP := c, eSigmaP := d, ocr := e\<rparr>) mcp r2f ll =
     getSigmaP dp self mcp r2f ll"
  by (simp add: getSigmaP_def bisector_vcl_fresh split: sum.splits option.splits)

lemma bisector_vcl_idem:
  "bisector_vcl cs (bisector_vcl cs self s e) s e = bisector_vcl cs self s e"
  by (simp add: bisector_vcl_def Let_def split: prod.splits)

lemma bisector_vcl_frame:
  "bisector_vcl cs self s e =
     self\<lparr>sigmaMC := sigmaMC (bisector_vcl cs self s e), eMC := eMC (bisector_vcl cs self s e),
       sigmaP := sigmaP (bisector_vcl cs self s e), eSigmaP := eSigmaP (bisector_vcl cs self s e),
       ocr := ocr (bisector_vcl cs self s e)\<rparr>"
  by (simp add: bisector_vcl_def Let_def split: prod.splits)

lemma short_data_fails:
  "getSigmaP line_deps (init (line_data\<lparr>cleaned := []\<rparr>)) None None True = Inl ValueError"
  by (simp add: getSigmaP_def CubicSpline_def init_def sigmaLog_def stress1_def e1_def)

lemma near_spline:
  "CubicSpline (interp line_deps) (list_all (\<lambda>s. 0 < s) (stress1 near_data))
     (sigmaLog near_data) (e1 near_data) = Inr line_cs"
  by (simp add: CubicSpline_def line_deps_def near_data_def line_data_def line_rows_def stress1_def
      sigmaLog_def e1_def log10_values)

lemma near_fop:
  "mcp_search line_deps near_data line_cs (Some (10, 1000000)) False = Inr (10, 17 / 4)"
proof -
  have sl: "py_slice (findStressIdx line_deps near_data 10 True)
      (findStressIdx line_deps near_data 1000000 True) (map fst (cleaned near_data)) =
      [10, 100, 1000, 10000, 100000]"
    by (simp add: py_slice_def line_deps_def ceil_idx_def near_data_def line_data_def line_rows_def)
  have "fop_mcp line_deps near_data (10, 1000000) False =
     Inr (transform False (transform False (hd [10, 100, 1000, 10000, 100000]) False) True,
          5 + (- 3 / 4) * transform False (hd [10, 100, 1000, 10000, 100000]) False)"
    by (rule fop_mcp_line [where eFOP = "py_slice (findStressIdx line_deps near_data 10 True)
      (findStressIdx line_deps near_data 1000000 True) (map snd (cleaned near_data))"])
      (simp_all add: sl, simp add: line_deps_def)
  then show ?thesis by (simp add: mcp_search_def transform_def)
qed

lemma near_intersect:
  "intersect near_data 1 (17 / 4) (- 1 / 3) = (100, 47 / 12, 2)"
proof -
  have "(17 / 4 - - 1 / 3 * 1 - idxCcInt near_data) / (- idxCc near_data - - 1 / 3) = (2::real)"
    by (simp add: near_data_def line_data_def)
  then show ?thesis
    unfolding intersect_def Let_def by (simp add: log10_values near_data_def line_data_def)
qed

subsection \<open>A curve without a curvature peak\<close>

lemma local_maxima_no_rise:
  assumes "\<forall>i. Suc i < length x \<longrightarrow> \<not> x ! i < x ! Suc i"
  shows "local_maxima x = []"
proof (rule ccontr)
  assume "local_maxima x \<noteq> []"
  then obtain p where "p \<in> set (local_maxima x)" by (cases "local_maxima x") auto
  then obtain l r where "flat_peak x l r" unfolding local_maxima_iff by blast
  then have "0 < l" "l \<le> r" "Suc r < length x" "x ! (l - 1) < x ! l"
    unfolding flat_peak_def by blast+
  then have "Suc (l - 1) < length x" "x ! (l - 1) < x ! Suc (l - 1)" by simp_all
  with assms show False by blast
qed

lemma find_peaks_no_maxima: "local_maxima x = [] \<Longrightarrow> find_peaks x d = []"
  by (simp add: find_peaks_def)

lemma sigmaCS_length [simp]: "length (sigmaCS d) = 100"
  by (simp add: sigmaCS_def)

lemma line_no_peak:
  "find_peaks (map (\<lambda>x. curvature_of (line_cs 2 x) (line_cs 1 x)) (sigmaCS line_data)) 500 = []"
  by (intro find_peaks_no_maxima local_maxima_no_rise) (simp add: line_cs_def)

lemma spline_mode_no_peak:
  assumes "CubicSpline (interp dp) (list_all (\<lambda>s. 0 < s) (stress1 (data self)))
        (sigmaLog (data self)) (e1 (data self)) = Inr cs"
    and "find_peaks (map (\<lambda>x. curvature_of (cs 2 x) (cs 1 x)) (sigmaCS (data self))) 500 = []"
  shows "getSigmaP dp self mcp None ll = Inl IndexError"
  using assms by (simp add: getSigmaP_def mcp_search_def spline_mcp_def)

lemma line_spline_mode: "getSigmaP line_deps (init line_data) mcp None ll = Inl IndexError"
  using spline_mode_no_peak [of line_deps "init line_data" line_cs mcp ll] line_spline line_no_peak
  by (simp add: init_def)

subsection \<open>The branch of the fourth-order polynomial\<close>

text \<open>
  \<open>firstDer\<close> and \<open>secondDer\<close> of lines 141 and 142 are the first and the second
  derivative of the fitted polynomial, and \<open>transform(., True)\<close> undoes \<open>transform\<close> on
  the stresses whose logarithms are defined.
\<close>

lemma polyval5:
  "polyval x [p0, p1, p2, p3, p4] = p0 + p1 * x + p2 * x\<^sup>2 + p3 * x ^ 3 + p4 * x ^ 4"
  by (simp add: polyval_def power2_eq_square power3_eq_cube power4_eq_xxxx algebra_simps)

lemma fop_first_derivative:
  "((\<lambda>x. polyval x [p0, p1, p2, p3, p4]) has_real_derivative
      (p1 + 2 * p2 * x + 3 * p3 * x\<^sup>2 + 4 * p4 * x ^ 3)) (at x)"
  unfolding polyval5 by (auto intro!: derivative_eq_intros simp: algebra_simps)

lemma fop_second_derivative:
  "((\<lambda>x. p1 + 2 * p2 * x + 3 * p3 * x\<^sup>2 + 4 * p4 * x ^ 3) has_real_derivative
      (2 * p2 + 6 * p3 * x + 12 * p4 * x\<^sup>2)) (at x)"
  by (auto intro!: derivative_eq_intros simp: algebra_simps)

lemma transform_inverse:
  "(if ll then 1 else 0) < x \<Longrightarrow> transform ll (transform ll x False) True = x"
  by (auto simp: transform_def)

lemma fop_mcp_Inr:
  assumes ok: "fop_mcp dp d (lo, hi) ll = Inr (s0, e0)"
    and sigmaFOP: "sigmaFOP = py_slice (findStressIdx dp d lo True) (findStressIdx dp d hi True)
        (map fst (cleaned d))"
    and eFOP: "eFOP = py_slice (findStressIdx dp d lo True) (findStressIdx dp d hi True)
        (map snd (cleaned d))"
    and fit: "lstsq4 dp (map (\<lambda>x. transform ll x False) sigmaFOP) eFOP = p"
  shows "sigmaFOP \<noteq> [] \<and>
     (\<exists>idx. argmax (fop_curvature p (fop_samples ll sigmaFOP)) = Inr idx \<and>
        s0 = transform ll (fop_samples ll sigmaFOP ! idx) True \<and>
        e0 = (case p of (p0, p1, p2, p3, p4) \<Rightarrow>
                polyval (fop_samples ll sigmaFOP ! idx) [p0, p1, p2, p3, p4]))"
proof -
  obtain p0 p1 p2 p3 p4 where p: "p = (p0, p1, p2, p3, p4)" by (cases p) auto
  from ok have pf: "polyfit (lstsq4 dp) (map (\<lambda>x. transform ll x False) sigmaFOP) eFOP = Inr p"
    unfolding fop_mcp_def Let_def fst_conv snd_conv sigmaFOP [symmetric] eFOP [symmetric]
    using fit by (auto simp: polyfit_def split: sum.splits if_splits)
  then have ne: "sigmaFOP \<noteq> []" by (auto simp: polyfit_def split: if_splits)
  from ok pf p obtain idx where
    a: "argmax (fop_curvature p (fop_samples ll sigmaFOP)) = Inr idx"
    and r: "s0 = transform ll (fop_samples ll sigmaFOP ! idx) True"
      "e0 = map (\<lambda>x. polyval x [p0, p1, p2, p3, p4]) (fop_samples ll sigmaFOP) ! idx"
    unfolding fop_mcp_def Let_def fst_conv snd_conv sigmaFOP [symmetric] eFOP [symmetric]
    by (auto split: sum.splits)
  from argmax_props [OF a] have "idx < 1000" by (simp add: fop_curvature_def fop_samples_def p)
  then have "e0 = polyval (fop_samples ll sigmaFOP ! idx) [p0, p1, p2, p3, p4]"
    using r(2) by (simp add: fop_samples_def)
  with ne a r(1) p show ?thesis by auto
qed

subsection \<open>A given MCP on the straight line\<close>

lemma line_manual:
  assumes "mcp_search line_deps line_data line_cs r2f ll = Inr found"
  shows "getSigmaP line_deps (init line_data) (Some 1000) r2f ll =
     Inr \<lparr>data = line_data, sigmaMC = Some 1000, eMC = Some (11 / 4),
          sigmaP = Some (10 powr (17 / 6)), eSigmaP = Some (101 / 36),
          ocr = Some (10 powr (17 / 6) / 50)\<rparr>"
proof -
  obtain s0 e0 where "found = (s0, e0)" by (cases found)
  with assms have "getSigmaP line_deps (init line_data) (Some 1000) r2f ll =
      Inr (bisector_vcl line_cs (init line_data) 1000 (line_cs 0 (log 10 1000)))"
    using getSigmaP_eval [of line_deps "init line_data" line_cs r2f ll s0 e0 "Some 1000"]
      line_spline by (simp add: init_def)
  moreover have "slopeBisect (slopeMP line_cs 1000) = - 1 / 3"
    using slopeBisect_example by (simp add: slopeMP_def line_cs_def)
  moreover have "(11 / 4 - - 1 / 3 * 3 - idxCcInt line_data) / (- idxCc line_data - - 1 / 3) =
      (17 / 6 :: real)"
    by (simp add: line_data_def)
  then have "intersect line_data 3 (11 / 4) (- 1 / 3) =
      (10 powr (17 / 6), 101 / 36, 10 powr (17 / 6) / 50)"
    unfolding intersect_def Let_def by (simp add: line_data_def)
  ultimately show ?thesis
    by (simp add: bisector_vcl_def Let_def log10_values init_def line_cs_def)
qed

lemma line_fop2:
  "mcp_search line_deps line_data line_cs (Some (1, 100000)) False = Inr (1, 5)"
proof -
  have sl: "py_slice (findStressIdx line_deps line_data 1 True)
      (findStressIdx line_deps line_data 100000 True) (map fst (cleaned line_data)) =
      [1, 10, 100, 1000, 10000]"
    by (simp add: py_slice_def line_deps_def ceil_idx_def line_data_def line_rows_def)
  have "fop_mcp line_deps line_data (1, 100000) False =
     Inr (transform False (transform False (hd [1, 10, 100, 1000, 10000]) False) True,
          5 + (- 3 / 4) * transform False (hd [1, 10, 100, 1000, 10000]) False)"
    by (rule fop_mcp_line [where eFOP = "py_slice (findStressIdx line_deps line_data 1 True)
      (findStressIdx line_deps line_data 100000 True) (map snd (cleaned line_data))"])
      (simp_all add: sl, simp add: line_deps_def)
  then show ?thesis by (simp add: mcp_search_def transform_def)
qed

lemma manual_override_search_still_runs:
  "getSigmaP line_deps (init line_data) (Some 1000) None True = Inl IndexError"
  by (rule line_spline_mode)

subsection \<open>Samples with a single peak\<close>

lemma unimodal_run:
  assumes "\<forall>i. L \<le> i \<and> i < R \<longrightarrow> x ! Suc i = x ! (i::nat)"
  shows "L \<le> k \<Longrightarrow> k \<le> R \<Longrightarrow> x ! k = x ! L"
proof (induction k)
  case 0
  then show ?case by simp
next
  case (Suc k)
  show ?case
  proof (cases "L \<le> k")
    case True
    with Suc have "x ! k = x ! L" "k < R" by simp_all
    moreover from assms True \<open>k < R\<close> have "x ! Suc k = x ! k" by blast
    ultimately show ?thesis by simp
  next
    case False
    with Suc.prems have "Suc k = L" by simp
    then show ?thesis by simp
  qed
qed

lemma unimodal_flat_peak: "unimodal x L R \<Longrightarrow> flat_peak x L R"
proof -
  assume u: "unimodal x L R"
  then have a: "0 < L" "L \<le> R" "Suc R < length x" "\<forall>i<L. x ! i < x ! Suc i"
    "\<forall>i. L \<le> i \<and> i < R \<longrightarrow> x ! Suc i = x ! i"
    "\<forall>i. R \<le> i \<and> Suc i < length x \<longrightarrow> x ! Suc i < x ! i"
    unfolding unimodal_def by blast+
  have run: "\<And>k. L \<le> k \<Longrightarrow> k \<le> R \<Longrightarrow> x ! k = x ! L"
    by (rule unimodal_run [OF a(5)])
  from a(1,4) have "x ! (L - 1) < x ! Suc (L - 1)" by (metis diff_less zero_less_one)
  with a(1) have 1: "x ! (L - 1) < x ! L" by simp
  from a(3,6) have "x ! Suc R < x ! R" by blast
  moreover have "x ! R = x ! L" using a(2) by (intro run) auto
  ultimately have 2: "x ! Suc R < x ! L" by simp
  show ?thesis
    unfolding flat_peak_def using a(1,2,3) 1 2 by (auto intro: run)
qed

lemma unimodal_only_peak:
  assumes u: "unimodal x L R" and f: "flat_peak x l r"
  shows "l = L \<and> r = R"
proof -
  from u have a: "0 < L" "L \<le> R" "Suc R < length x" "\<forall>i<L. x ! i < x ! Suc i"
    "\<forall>i. L \<le> i \<and> i < R \<longrightarrow> x ! Suc i = x ! i"
    "\<forall>i. R \<le> i \<and> Suc i < length x \<longrightarrow> x ! Suc i < x ! i"
    unfolding unimodal_def by blast+
  from f have b: "0 < l" "l \<le> r" "Suc r < length x" "x ! (l - 1) < x ! l"
    "\<And>k. l \<le> k \<Longrightarrow> k \<le> r \<Longrightarrow> x ! k = x ! l" "x ! Suc r < x ! l"
    unfolding flat_peak_def by blast+
  have lL: "l \<le> L"
  proof (rule ccontr)
    assume "\<not> l \<le> L"
    then have c: "L \<le> l - 1" by simp
    have "x ! Suc (l - 1) \<le> x ! (l - 1)"
    proof (cases "l - 1 < R")
      case True
      with a(5) c have "x ! Suc (l - 1) = x ! (l - 1)" by blast
      then show ?thesis by simp
    next
      case False
      then have "R \<le> l - 1" by simp
      moreover have "Suc (l - 1) < length x" using b(1,2,3) by simp
      ultimately have "x ! Suc (l - 1) < x ! (l - 1)" using a(6) by blast
      then show ?thesis by simp
    qed
    with b(1,4) show False by simp
  qed
  have xr: "x ! r = x ! l" using b(2) by (intro b(5)) auto
  have rR: "R \<le> r"
  proof (rule ccontr)
    assume "\<not> R \<le> r"
    then have c: "r < R" by simp
    have "x ! r \<le> x ! Suc r"
    proof (cases "r < L")
      case True
      with a(4) have "x ! r < x ! Suc r" by blast
      then show ?thesis by simp
    next
      case False
      with a(5) c have "x ! Suc r = x ! r" by auto
      then show ?thesis by simp
    qed
    with b(6) xr show False by simp
  qed
  have "l = L"
  proof (rule ccontr)
    assume "l \<noteq> L"
    with lL have c: "l < L" by simp
    with a(4) have "x ! l < x ! Suc l" by blast
    moreover have "x ! Suc l = x ! l" using c a(2) rR by (intro b(5)) auto
    ultimately show False by simp
  qed
  moreover have "r = R"
  proof (rule ccontr)
    assume "r \<noteq> R"
    with rR have c: "R < r" by simp
    then have "R \<le> r - 1" "Suc (r - 1) < length x" using b(3) by auto
    with a(6) have "x ! Suc (r - 1) < x ! (r - 1)" by blast
    with c have "x ! r < x ! (r - 1)" by simp
    moreover have "x ! (r - 1) = x ! l" using c lL a(2) by (intro b(5)) auto
    ultimately show False using xr by simp
  qed
  ultimately show ?thesis by simp
qed

lemma find_peaks_unimodal:
  assumes u: "unimodal x L R" and d: "length x \<le> d"
  shows "find_peaks x d = [(L + R) div 2]"
proof -
  from unimodal_flat_peak [OF u] have "(L + R) div 2 \<in> set (local_maxima x)"
    unfolding local_maxima_iff by blast
  then have ne: "local_maxima x \<noteq> []" by auto
  let ?j = "last (argsort (map (\<lambda>p. x ! p) (local_maxima x)))"
  have "?j \<in> set (argsort (map (\<lambda>p. x ! p) (local_maxima x)))"
    using ne by (intro last_in_set) (metis argsort_length length_0_conv length_map)
  then have "?j < length (local_maxima x)" by (simp add: argsort_set)
  then have "local_maxima x ! ?j \<in> set (local_maxima x)" by simp
  then obtain l r where "flat_peak x l r" "local_maxima x ! ?j = (l + r) div 2"
    unfolding local_maxima_iff by blast
  with unimodal_only_peak [OF u] have "local_maxima x ! ?j = (L + R) div 2" by blast
  with find_peaks_far [OF d] ne show ?thesis by simp
qed

lemma curvature_of_less:
  assumes "s \<noteq> 0" "\<bar>f1\<bar> < \<bar>f2\<bar>"
  shows "curvature_of s f2 < curvature_of s f1"
proof -
  define A where "A = (1 + f1\<^sup>2) powr (3 / 2)"
  define B where "B = (1 + f2\<^sup>2) powr (3 / 2)"
  from assms(2) have "\<bar>f1\<bar>\<^sup>2 < \<bar>f2\<bar>\<^sup>2" by (intro power_strict_mono) simp_all
  then have "f1\<^sup>2 < f2\<^sup>2" by simp
  then have AB: "A < B"
    unfolding A_def B_def by (intro powr_less_mono2) (simp_all add: add_nonneg_nonneg)
  have "0 < 1 + f1\<^sup>2" by (simp add: add_pos_nonneg)
  then have A: "0 < A" unfolding A_def by simp
  with AB have "0 < B * A" by (intro mult_pos_pos) simp_all
  with AB assms(1) have "\<bar>s\<bar> / B < \<bar>s\<bar> / A" by (intro divide_strict_left_mono) simp_all
  then show ?thesis by (simp add: curvature_of_def A_def B_def)
qed

lemma curvature_of_abs: "\<bar>f1\<bar> = \<bar>f2\<bar> \<Longrightarrow> curvature_of s f1 = curvature_of s f2"
proof -
  assume "\<bar>f1\<bar> = \<bar>f2\<bar>"
  then have "f1\<^sup>2 = f2\<^sup>2" by (metis power2_abs)
  then show ?thesis by (simp add: curvature_of_def)
qed

subsection \<open>The branch of the cubic spline\<close>

lemma strictly_increasing_last: "strictly_increasing (a # xs) \<Longrightarrow> xs \<noteq> [] \<Longrightarrow> a < last xs"
proof (induction xs arbitrary: a)
  case Nil
  then show ?case by simp
next
  case (Cons b ys)
  show ?case
  proof (cases "ys = []")
    case True
    with Cons.prems show ?thesis by simp
  next
    case False
    with Cons.prems Cons.IH [of b] have "a < b" "b < last ys" by simp_all
    with False show ?thesis by simp
  qed
qed

lemma strictly_increasing_hd_last:
  "strictly_increasing xs \<Longrightarrow> 2 \<le> length xs \<Longrightarrow> hd xs < last xs"
proof (cases xs)
  case Nil
  assume "2 \<le> length xs"
  with Nil show ?thesis by simp
next
  case (Cons a ys)
  assume "strictly_increasing xs" "2 \<le> length xs"
  with Cons have "strictly_increasing (a # ys)" "ys \<noteq> []" by auto
  from strictly_increasing_last [OF this] Cons \<open>ys \<noteq> []\<close> show ?thesis by simp
qed

lemma flat_peak_middle:
  assumes "flat_peak c l r" and "idx = (l + r) div 2"
  shows "0 < idx \<and> Suc idx < length c \<and> c ! (idx - 1) \<le> c ! idx \<and> c ! Suc idx \<le> c ! idx"
proof -
  from assms(1) have b: "0 < l" "l \<le> r" "Suc r < length c" "c ! (l - 1) < c ! l"
    "\<And>k. l \<le> k \<Longrightarrow> k \<le> r \<Longrightarrow> c ! k = c ! l" "c ! Suc r < c ! l"
    unfolding flat_peak_def by blast+
  from assms(2) b(2) have i: "l \<le> idx" "idx \<le> r" by linarith+
  have ci: "c ! idx = c ! l" using i by (intro b(5))
  have "c ! (idx - 1) \<le> c ! l"
  proof (cases "idx = l")
    case True
    with b(4) show ?thesis by simp
  next
    case False
    with i have "c ! (idx - 1) = c ! l" by (intro b(5)) auto
    then show ?thesis by simp
  qed
  moreover have "c ! Suc idx \<le> c ! l"
  proof (cases "idx = r")
    case True
    with b(6) show ?thesis by simp
  next
    case False
    with i have "c ! Suc idx = c ! l" by (intro b(5)) auto
    then show ?thesis by simp
  qed
  ultimately show ?thesis using ci i b(1,3) by simp
qed

lemma spline_mode_Inr:
  assumes ok: "getSigmaP dp self None None ll = Inr self'"
    and cs: "cs = cs_of dp (data self)"
    and c: "c = map (\<lambda>t. curvature_of (cs 2 t) (cs 1 t)) (sigmaCS (data self))"
  shows "\<exists>idx. find_peaks c 500 = [idx] \<and> idx \<in> set (local_maxima c) \<and>
     (\<forall>p\<in>set (local_maxima c). c ! p \<le> c ! idx) \<and>
     self' = bisector_vcl cs self (10 powr (sigmaCS (data self) ! idx))
               (cs 0 (sigmaCS (data self) ! idx))"
proof -
  from getSigmaP_Inr [OF ok] obtain s0 e0 where
    m: "spline_mcp cs (sigmaCS (data self)) = Inr (s0, e0)"
    and r: "self' = bisector_vcl cs self s0 e0"
    by (auto simp: mcp_search_def cs)
  from m obtain idx rest where f: "find_peaks c 500 = idx # rest"
    and s0: "s0 = 10 powr (sigmaCS (data self) ! idx)" and e0: "e0 = cs 0 (sigmaCS (data self) ! idx)"
    by (auto simp: spline_mcp_def Let_def c split: list.splits)
  let ?ps = "local_maxima c"
  let ?pr = "map (\<lambda>p. c ! p) ?ps"
  let ?j = "last (argsort ?pr)"
  have len: "length c \<le> 500" by (simp add: c)
  from find_peaks_far [OF len] f have ne: "?ps \<noteq> []" and fj: "idx # rest = [?ps ! ?j]"
    by (auto split: if_splits)
  then have idx: "idx = ?ps ! ?j" and rest: "rest = []" by simp_all
  have "?j \<in> set (argsort ?pr)"
    using ne by (intro last_in_set) (metis argsort_length length_0_conv length_map)
  then have j: "?j < length ?ps" by (simp add: argsort_set)
  then have in_set: "idx \<in> set ?ps" unfolding idx by simp
  have mx: "\<forall>p\<in>set ?ps. c ! p \<le> c ! idx"
  proof
    fix p assume "p \<in> set ?ps"
    then obtain k where k: "k < length ?ps" "?ps ! k = p" by (auto simp: in_set_conv_nth)
    have "?pr \<noteq> []" using ne by simp
    from argsort_last_max [OF this, of k] k(1) have "?pr ! k \<le> ?pr ! ?j" by simp
    with k j show "c ! p \<le> c ! idx" unfolding idx by simp
  qed
  from f rest in_set mx r s0 e0 show ?thesis by auto
qed

lemma knots_of_spline:
  assumes ok: "getSigmaP dp self mcp r2f ll = Inr self'"
  shows "stress1 (data self) \<noteq> [] \<and>
     0 < fst (cleaned (data self) ! 1) \<and> 0 < fst (last (cleaned (data self))) \<and>
     log 10 (fst (cleaned (data self) ! 1)) < log 10 (fst (last (cleaned (data self)))) \<and>
     hd (stress1 (data self)) = fst (cleaned (data self) ! 1) \<and>
     last (stress1 (data self)) = fst (last (cleaned (data self)))"
proof -
  let ?st = "stress1 (data self)"
  from getSigmaP_Inr [OF ok] have
    "CubicSpline (interp dp) (list_all (\<lambda>s. 0 < s) ?st)
        (sigmaLog (data self)) (e1 (data self)) = Inr (cs_of dp (data self))" by blast
  from CubicSpline_Inr [OF this] have pos: "list_all (\<lambda>s. 0 < s) ?st"
    and len: "2 \<le> length (sigmaLog (data self))" and inc: "strictly_increasing (sigmaLog (data self))"
    by simp_all
  from len have l2: "2 \<le> length ?st" by (simp add: sigmaLog_def)
  then have ne: "?st \<noteq> []" by auto
  from strictly_increasing_hd_last [OF inc len] ne
  have lt: "log 10 (hd ?st) < log 10 (last ?st)"
    by (simp add: sigmaLog_def hd_map last_map)
  from ne have tne: "tl (cleaned (data self)) \<noteq> []" by (auto simp: stress1_def)
  then have cne: "cleaned (data self) \<noteq> []" by auto
  from tne obtain r0 r1 rs where "cleaned (data self) = r0 # r1 # rs"
    by (cases "cleaned (data self)"; cases "tl (cleaned (data self))") auto
  then have h: "hd ?st = fst (cleaned (data self) ! 1)"
    by (simp add: stress1_def)
  have l: "last ?st = fst (last (cleaned (data self)))"
    using tne by (simp add: stress1_def last_map last_tl)
  from pos have "\<forall>s\<in>set ?st. 0 < s" by (simp add: list_all_iff)
  with ne have "0 < hd ?st" "0 < last ?st" by simp_all
  with ne lt h l show ?thesis by simp
qed

lemma sigmaCS_nth:
  assumes ok: "getSigmaP dp self mcp r2f ll = Inr self'" and i: "i < 100"
  shows "sigmaCS (data self) ! i = log 10 (fst (cleaned (data self) ! 1)) +
     real i * ((log 10 (fst (last (cleaned (data self)))) - log 10 (fst (cleaned (data self) ! 1))) / 99)"
proof -
  from knots_of_spline [OF ok] have ne: "stress1 (data self) \<noteq> []"
    and h: "hd (stress1 (data self)) = fst (cleaned (data self) ! 1)"
    and l: "last (stress1 (data self)) = fst (last (cleaned (data self)))" by blast+
  show ?thesis
    using i ne by (simp add: sigmaCS_def linspace_nth sigmaLog_def hd_map last_map h l)
qed

subsection \<open>The method on the parabola\<close>

lemma parab_spline:
  "CubicSpline (interp (parab_deps v)) (list_all (\<lambda>s. 0 < s) (stress1 (parab_data v)))
     (sigmaLog (parab_data v)) (e1 (parab_data v)) = Inr (parab v)"
  by (simp add: CubicSpline_def parab_deps_def parab_data_def parab_rows_def stress1_def
      sigmaLog_def e1_def log10_values)

lemma parab_sigmaCS: "sigmaCS (parab_data v) = linspace 1 4 100"
  by (simp add: sigmaCS_def sigmaLog_def stress1_def parab_data_def parab_rows_def log10_values)

lemma parab_curvature_nth:
  "i < 100 \<Longrightarrow> parab_curvature v ! i = curvature_of (- 3 / 4) (- 3 / 4 * (1 + real i / 33 - v))"
  by (simp add: parab_curvature_def parab_sigmaCS linspace_nth parab_def curvature_of_def)

lemma parab_curvature_length [simp]: "length (parab_curvature v) = 100"
  by (simp add: parab_curvature_def)

lemma parab_unimodal: "unimodal (parab_curvature 2) 33 33"
  unfolding unimodal_def
proof (intro conjI allI impI)
  fix i :: nat assume i: "i < 33"
  then have "\<bar>- 3 / 4 * (1 + real (Suc i) / 33 - 2)\<bar> < \<bar>- 3 / 4 * (1 + real i / 33 - 2)\<bar>"
    by (simp add: abs_if field_simps)
  from curvature_of_less [OF _ this, of "- 3 / 4"] i
  show "parab_curvature 2 ! i < parab_curvature 2 ! Suc i"
    by (simp add: parab_curvature_nth)
next
  fix i :: nat assume i: "33 \<le> i \<and> Suc i < length (parab_curvature 2)"
  then have "\<bar>- 3 / 4 * (1 + real i / 33 - 2)\<bar> < \<bar>- 3 / 4 * (1 + real (Suc i) / 33 - 2)\<bar>"
    by (simp add: abs_if field_simps)
  from curvature_of_less [OF _ this, of "- 3 / 4"] i
  show "parab_curvature 2 ! Suc i < parab_curvature 2 ! i"
    by (simp add: parab_curvature_nth)
qed simp_all

lemma flat_unimodal: "unimodal (parab_curvature (133 / 66)) 33 34"
  unfolding unimodal_def
proof (intro conjI allI impI)
  fix i :: nat assume i: "i < 33"
  then have "\<bar>- 3 / 4 * (1 + real (Suc i) / 33 - 133 / 66)\<bar> < \<bar>- 3 / 4 * (1 + real i / 33 - 133 / 66)\<bar>"
    by (simp add: abs_if field_simps)
  from curvature_of_less [OF _ this, of "- 3 / 4"] i
  show "parab_curvature (133 / 66) ! i < parab_curvature (133 / 66) ! Suc i"
    by (simp add: parab_curvature_nth)
next
  fix i :: nat assume i: "34 \<le> i \<and> Suc i < length (parab_curvature (133 / 66))"
  then have "\<bar>- 3 / 4 * (1 + real i / 33 - 133 / 66)\<bar> < \<bar>- 3 / 4 * (1 + real (Suc i) / 33 - 133 / 66)\<bar>"
    by (simp add: abs_if field_simps)
  from curvature_of_less [OF _ this, of "- 3 / 4"] i
  show "parab_curvature (133 / 66) ! Suc i < parab_curvature (133 / 66) ! i"
    by (simp add: parab_curvature_nth)
next
  fix i :: nat assume "33 \<le> i \<and> i < 34"
  then have i: "i = 33" by simp
  have "\<bar>- 3 / 4 * (1 + real (Suc 33) / 33 - 133 / 66)\<bar> = \<bar>- 3 / 4 * (1 + real (33::nat) / 33 - 133 / 66)\<bar>"
    by simp
  from curvature_of_abs [OF this, of "- 3 / 4"]
  show "parab_curvature (133 / 66) ! Suc i = parab_curvature (133 / 66) ! i"
    unfolding i by (simp add: parab_curvature_nth)
qed simp_all

lemma parab_mcp:
  assumes "find_peaks (parab_curvature v) 500 = [33]"
  shows "getSigmaP (parab_deps v) (init (parab_data v)) None None ll =
     Inr (bisector_vcl (parab v) (init (parab_data v)) 100 (parab v 0 2))"
proof -
  have x: "sigmaCS (parab_data v) ! 33 = 2" by (simp add: parab_sigmaCS linspace_nth)
  have c: "map (\<lambda>x. curvature_of (parab v 2 x) (parab v 1 x)) (sigmaCS (parab_data v)) =
      parab_curvature v"
    by (simp add: parab_curvature_def curvature_of_def)
  have "spline_mcp (parab v) (sigmaCS (parab_data v)) = Inr (100, parab v 0 2)"
    unfolding spline_mcp_def Let_def c assms by (simp add: x)
  then have "mcp_search (parab_deps v) (parab_data v) (parab v) None ll = Inr (100, parab v 0 2)"
    by (simp add: mcp_search_def)
  from getSigmaP_eval [of "parab_deps v" "init (parab_data v)" "parab v" None ll 100 "parab v 0 2" None]
    parab_spline [of v] this
  show ?thesis by (simp add: init_def)
qed

lemma parab_peak: "find_peaks (parab_curvature 2) 500 = [33]"
  using find_peaks_unimodal [OF parab_unimodal, of 500] by simp

lemma flat_peak_found: "find_peaks (parab_curvature (133 / 66)) 500 = [33]"
  using find_peaks_unimodal [OF flat_unimodal, of 500] by simp

lemma parab_result:
  "getSigmaP (parab_deps 2) (init (parab_data 2)) None None ll =
     Inr \<lparr>data = parab_data 2, sigmaMC = Some 100, eMC = Some 2, sigmaP = Some 1000,
          eSigmaP = Some 2, ocr = Some 10\<rparr>"
proof -
  have b: "slopeBisect (slopeMP (parab 2) 100) = 0"
    by (simp add: slopeBisect_def slopeMP_def parab_def log10_values)
  have "(2 - 0 * 2 - idxCcInt (parab_data 2)) / (- idxCc (parab_data 2) - 0) = (3::real)"
    by (simp add: parab_data_def)
  then have "intersect (parab_data 2) 2 2 0 = (1000, 2, 10)"
    unfolding intersect_def Let_def by (simp add: parab_data_def)
  with parab_mcp [OF parab_peak, of ll] b show ?thesis
    by (simp add: bisector_vcl_def Let_def init_def log10_values parab_def)
qed

lemma parab_cs_of: "cs_of (parab_deps v) d = parab v"
  by (simp add: cs_of_def parab_deps_def)

lemma data_init: "data (init d) = d"
  by (simp add: init_def)

text \<open>
  The first peak that \<open>find_peaks\<close> reports is not \<open>np.argmax\<close>: a greatest sample at
  either end of the array is no peak.
\<close>

lemma first_peak_is_not_argmax:
  "find_peaks [3, 1, 2, 1] 500 = [2] \<and> argmax [3, 1, 2, 1] = Inr 0"
  by code_simp

section \<open>The claims\<close>

text \<open>
  Claim C8. For every tangent slope \<open>m\<close> below zero, the bisector slope
  \<open>tan (0.5 * arctan m)\<close> lies strictly between \<open>m\<close> and zero: it is negative, its
  magnitude is positive and smaller than the magnitude of \<open>m\<close>.
\<close>

theorem bisector_between:
  assumes "m < 0"
  shows "m < slopeBisect m \<and> slopeBisect m < 0 \<and> \<bar>slopeBisect m\<bar> < \<bar>m\<bar> \<and> 0 < \<bar>slopeBisect m\<bar>"
proof -
  have a1: "- (pi / 2) < arctan m" by (rule arctan_lbound)
  have a2: "arctan m < 0" using assms by simp
  have "tan (arctan m) < tan (0.5 * arctan m)"
    using a1 a2 pi_gt_zero by (intro tan_monotone) linarith+
  then have 1: "m < slopeBisect m" by (simp add: slopeBisect_def tan_arctan)
  have "tan (0.5 * arctan m) < tan 0"
    using a1 a2 pi_gt_zero by (intro tan_monotone) linarith+
  then have 2: "slopeBisect m < 0" by (simp add: slopeBisect_def)
  from 1 2 assms show ?thesis by simp
qed

theorem bisector_between_witness:
  "(- 3 / 4 :: real) < 0 \<and> - 3 / 4 < slopeBisect (- 3 / 4) \<and> slopeBisect (- 3 / 4) < 0 \<and>
     \<bar>slopeBisect (- 3 / 4)\<bar> < \<bar>- 3 / 4 :: real\<bar> \<and> 0 < \<bar>slopeBisect (- 3 / 4)\<bar>"
  using bisector_between [of "- 3 / 4"] by simp

text \<open>
  Claim C1. For every bisector line through the point \<open>(x1, y1)\<close> with slope \<open>b\<close> and
  every virgin compression line with slope \<open>idxCc\<close> and intercept \<open>idxCcInt\<close> such that
  \<open>- idxCc - b\<close> is not zero, lines 163 to 166 give the pressure
  \<open>10 powr ((y1 - b * x1 - idxCcInt) / (- idxCc - b))\<close>, the void ratio
  \<open>b * (log10 stress_p - x1) + y1\<close> and the ratio \<open>stress_p / sigmaV\<close>; the point
  \<open>(log10 stress_p, void ratio)\<close> lies on both lines.
\<close>

theorem intersection_solver:
  assumes "- idxCc d - b \<noteq> 0"
  shows "\<exists>stress_p.
     intersect d x1 y1 b = (stress_p, b * (log 10 stress_p - x1) + y1, stress_p / sigmaV d) \<and>
     stress_p = 10 powr ((y1 - b * x1 - idxCcInt d) / (- idxCc d - b)) \<and>
     b * (log 10 stress_p - x1) + y1 = idxCcInt d - idxCc d * log 10 stress_p"
proof -
  define t where "t = (y1 - b * x1 - idxCcInt d) / (- idxCc d - b)"
  have "t * (- idxCc d - b) = y1 - b * x1 - idxCcInt d"
    unfolding t_def using assms by simp
  then have "- (idxCc d * t) - b * t = y1 - b * x1 - idxCcInt d"
    by (simp add: algebra_simps)
  then have "b * (t - x1) + y1 = idxCcInt d - idxCc d * t"
    by (simp add: right_diff_distrib)
  then show ?thesis
    unfolding t_def by (intro exI [of _ "10 powr t"]) (simp add: intersect_def Let_def t_def)
qed

theorem intersection_solver_witness:
  "- idxCc line_data - (- 1 / 3) \<noteq> 0 \<and>
   intersect line_data 1 (17 / 4) (- 1 / 3) = (100, 47 / 12, 2) \<and>
   (\<exists>stress_p.
     intersect line_data 1 (17 / 4) (- 1 / 3) =
       (stress_p, - 1 / 3 * (log 10 stress_p - 1) + 17 / 4, stress_p / sigmaV line_data) \<and>
     stress_p = 10 powr ((17 / 4 - - 1 / 3 * 1 - idxCcInt line_data) / (- idxCc line_data - - 1 / 3)) \<and>
     - 1 / 3 * (log 10 stress_p - 1) + 17 / 4 = idxCcInt line_data - idxCc line_data * log 10 stress_p)"
proof -
  have h: "- idxCc line_data - (- 1 / 3) \<noteq> 0" by (simp add: line_data_def)
  from intersection_solver [OF h, of 1 "17 / 4"] line_intersect h show ?thesis by blast
qed

text \<open>
  Claim C3. In every mode (whatever \<open>mcp\<close>, \<open>range2fitFOP\<close> and \<open>loglog\<close> are) a call
  that returns has used the tangent slope \<open>m\<close>, the first derivative of the cubic spline
  at \<open>log10\<close> of the MCP stress, and the bisector slope \<open>b = tan (0.5 * arctan m)\<close> for the
  intersection; \<open>b\<close> is not the arithmetic mean of the slopes \<open>0\<close> and \<open>m\<close> of the
  horizontal and the tangent unless \<open>m = 0\<close>.
\<close>

theorem bisector_from_spline_slope:
  assumes "getSigmaP dp self mcp r2f ll = Inr self'"
  shows "\<exists>sMC y1 m b.
     sigmaMC self' = Some sMC \<and> eMC self' = Some y1 \<and>
     m = cs_of dp (data self) 1 (log 10 sMC) \<and> b = tan (0.5 * arctan m) \<and>
     sigmaP self' = Some (fst (intersect (data self) (log 10 sMC) y1 b)) \<and>
     eSigmaP self' = Some (fst (snd (intersect (data self) (log 10 sMC) y1 b))) \<and>
     ocr self' = Some (snd (snd (intersect (data self) (log 10 sMC) y1 b))) \<and>
     (m \<noteq> 0 \<longrightarrow> b \<noteq> (0 + m) / 2)"
proof -
  let ?cs = "cs_of dp (data self)"
  from getSigmaP_Inr [OF assms] obtain sMC y1 where r: "self' = bisector_vcl ?cs self sMC y1"
    by (cases mcp) auto
  have b: "slopeBisect (slopeMP ?cs sMC) = tan (0.5 * arctan (?cs 1 (log 10 sMC)))"
    by (simp add: slopeBisect_def slopeMP_def)
  have "?cs 1 (log 10 sMC) \<noteq> 0 \<longrightarrow>
      tan (0.5 * arctan (?cs 1 (log 10 sMC))) \<noteq> (0 + ?cs 1 (log 10 sMC)) / 2"
    using bisect_not_mean [of "?cs 1 (log 10 sMC)"] by (simp add: slopeBisect_def)
  with r b show ?thesis
    by (intro exI [of _ sMC] exI [of _ y1] exI [of _ "?cs 1 (log 10 sMC)"]
        exI [of _ "tan (0.5 * arctan (?cs 1 (log 10 sMC)))"])
      (simp add: bisector_vcl_sel)
qed


theorem bisector_from_spline_slope_witness:
  "getSigmaP line_deps (init line_data) None (Some (10, 1000000)) False =
     Inr \<lparr>data = line_data, sigmaMC = Some 10, eMC = Some (17 / 4), sigmaP = Some 100,
          eSigmaP = Some (47 / 12), ocr = Some 2\<rparr> \<and>
   cs_of line_deps line_data 1 (log 10 10) = - 3 / 4 \<and>
   (- 3 / 4 :: real) \<noteq> 0 \<and>
   tan (0.5 * arctan (- 3 / 4)) \<noteq> (0 + (- 3 / 4 :: real)) / 2 \<and>
   fst (intersect line_data (log 10 10) (17 / 4) (tan (0.5 * arctan (- 3 / 4)))) = 100"
proof -
  let ?R = "\<lparr>data = line_data, sigmaMC = Some 10, eMC = Some (17 / 4), sigmaP = Some 100,
          eSigmaP = Some (47 / 12), ocr = Some 2\<rparr>"
  have m: "cs_of line_deps line_data 1 (log 10 10) = - 3 / 4"
    by (simp add: cs_of_def line_deps_def line_cs_def)
  from bisector_from_spline_slope [OF line_result] obtain sMC y1 m b where
    w: "sigmaMC ?R = Some sMC" "eMC ?R = Some y1"
      "m = cs_of line_deps (data (init line_data)) 1 (log 10 sMC)" "b = tan (0.5 * arctan m)"
      "sigmaP ?R = Some (fst (intersect (data (init line_data)) (log 10 sMC) y1 b))"
      "m \<noteq> 0 \<longrightarrow> b \<noteq> (0 + m) / 2"
    by blast
  from w(1,2) have "sMC = 10" "y1 = 17 / 4" by simp_all
  with w(3) m have mm: "m = - 3 / 4" by (simp add: init_def)
  with w(4,6) have "tan (0.5 * arctan (- 3 / 4)) \<noteq> (0 + (- 3 / 4 :: real)) / 2" by simp
  moreover from w(5) \<open>sMC = 10\<close> \<open>y1 = 17 / 4\<close> mm w(4)
  have "fst (intersect line_data (log 10 10) (17 / 4) (tan (0.5 * arctan (- 3 / 4)))) = 100"
    by (simp add: init_def)
  ultimately show ?thesis using line_result m by simp
qed

text \<open>
  Claim C9. A call that returns leaves \<open>self.data\<close> as it was and changes nothing but the
  five attributes \<open>sigmaMC\<close>, \<open>eMC\<close>, \<open>sigmaP\<close>, \<open>eSigmaP\<close> and \<open>ocr\<close>, all of which
  it assigns; their new values do not depend on the values \<open>a .. e\<close> they had before, and
  a second call with the same arguments assigns the same values again.
\<close>

theorem getSigmaP_frame:
  assumes "getSigmaP dp self mcp r2f ll = Inr self'"
  shows "data self' = data self \<and>
     self' = self\<lparr>sigmaMC := sigmaMC self', eMC := eMC self', sigmaP := sigmaP self',
                   eSigmaP := eSigmaP self', ocr := ocr self'\<rparr> \<and>
     sigmaMC self' \<noteq> None \<and> eMC self' \<noteq> None \<and> sigmaP self' \<noteq> None \<and>
     eSigmaP self' \<noteq> None \<and> ocr self' \<noteq> None \<and>
     getSigmaP dp (self\<lparr>sigmaMC := a, eMC := b, sigmaP := c, eSigmaP := d, ocr := e\<rparr>)
       mcp r2f ll = Inr self' \<and>
     getSigmaP dp self' mcp r2f ll = Inr self'"
proof -
  let ?cs = "cs_of dp (data self)"
  from getSigmaP_Inr [OF assms] obtain s ev where r: "self' = bisector_vcl ?cs self s ev"
    by (cases mcp) auto
  have 1: "data self' = data self" and 3: "sigmaMC self' \<noteq> None" "eMC self' \<noteq> None"
    "sigmaP self' \<noteq> None" "eSigmaP self' \<noteq> None" "ocr self' \<noteq> None"
    unfolding r by (simp_all add: bisector_vcl_sel)
  have 2: "self' = self\<lparr>sigmaMC := sigmaMC self', eMC := eMC self', sigmaP := sigmaP self',
                   eSigmaP := eSigmaP self', ocr := ocr self'\<rparr>"
    unfolding r by (rule bisector_vcl_frame)
  have 4: "getSigmaP dp (self\<lparr>sigmaMC := a, eMC := b, sigmaP := c, eSigmaP := d, ocr := e\<rparr>)
       mcp r2f ll = Inr self'"
    using assms by (simp only: getSigmaP_fresh)
  have "getSigmaP dp self' mcp r2f ll = getSigmaP dp self mcp r2f ll"
    by (subst 2) (rule getSigmaP_fresh)
  with assms 1 2 3 4 show ?thesis by simp
qed

theorem getSigmaP_frame_witness:
  "getSigmaP line_deps (init line_data) None (Some (10, 1000000)) False =
     Inr \<lparr>data = line_data, sigmaMC = Some 10, eMC = Some (17 / 4), sigmaP = Some 100,
          eSigmaP = Some (47 / 12), ocr = Some 2\<rparr> \<and>
   getSigmaP line_deps
     ((init line_data)\<lparr>sigmaMC := Some 1, eMC := Some 2, sigmaP := Some 3, eSigmaP := Some 4,
        ocr := Some 5\<rparr>) None (Some (10, 1000000)) False =
     Inr \<lparr>data = line_data, sigmaMC = Some 10, eMC = Some (17 / 4), sigmaP = Some 100,
          eSigmaP = Some (47 / 12), ocr = Some 2\<rparr> \<and>
   getSigmaP line_deps
     \<lparr>data = line_data, sigmaMC = Some 10, eMC = Some (17 / 4), sigmaP = Some 100,
          eSigmaP = Some (47 / 12), ocr = Some 2\<rparr> None (Some (10, 1000000)) False =
     Inr \<lparr>data = line_data, sigmaMC = Some 10, eMC = Some (17 / 4), sigmaP = Some 100,
          eSigmaP = Some (47 / 12), ocr = Some 2\<rparr>"
  using getSigmaP_frame [OF line_result, where a = "Some 1" and b = "Some 2" and c = "Some 3"
      and d = "Some 4" and e = "Some 5"]
    line_result by (simp add: init_def)

text \<open>
  Claim C5, as the code has it. No call fails with \<open>DegenerateGeometryError\<close>: there is
  no test of \<open>- idxCc - slopeBisect\<close> against a tolerance. A call that raises does so
  while the spline is built or while the MCP is searched, before the two lines are
  intersected.
\<close>

theorem no_parallel_check:
  "getSigmaP dp self mcp r2f ll \<noteq> Inl DegenerateGeometryError \<and>
   (getSigmaP dp self mcp r2f ll = Inl err \<longrightarrow>
      CubicSpline (interp dp) (list_all (\<lambda>s. 0 < s) (stress1 (data self)))
        (sigmaLog (data self)) (e1 (data self)) = Inl err \<or>
      mcp_search dp (data self) (cs_of dp (data self)) r2f ll = Inl err)"
proof
  show "getSigmaP dp self mcp r2f ll \<noteq> Inl DegenerateGeometryError"
    using getSigmaP_errors [of dp self mcp r2f ll DegenerateGeometryError] by auto
  show "getSigmaP dp self mcp r2f ll = Inl err \<longrightarrow>
      CubicSpline (interp dp) (list_all (\<lambda>s. 0 < s) (stress1 (data self)))
        (sigmaLog (data self)) (e1 (data self)) = Inl err \<or>
      mcp_search dp (data self) (cs_of dp (data self)) r2f ll = Inl err"
    using getSigmaP_Inl [of dp self mcp r2f ll err] by auto
qed

theorem no_parallel_check_witness:
  "getSigmaP line_deps (init (line_data\<lparr>cleaned := []\<rparr>)) None None True = Inl ValueError \<and>
   getSigmaP line_deps (init (line_data\<lparr>cleaned := []\<rparr>)) None None True
     \<noteq> Inl DegenerateGeometryError \<and>
   (CubicSpline (interp line_deps)
      (list_all (\<lambda>s. 0 < s) (stress1 (data (init (line_data\<lparr>cleaned := []\<rparr>)))))
        (sigmaLog (data (init (line_data\<lparr>cleaned := []\<rparr>))))
        (e1 (data (init (line_data\<lparr>cleaned := []\<rparr>)))) = Inl ValueError \<or>
      mcp_search line_deps (data (init (line_data\<lparr>cleaned := []\<rparr>)))
        (cs_of line_deps (data (init (line_data\<lparr>cleaned := []\<rparr>)))) None True = Inl ValueError)"
  using no_parallel_check [of line_deps "init (line_data\<lparr>cleaned := []\<rparr>)" None None True ValueError]
    short_data_fails by simp

text \<open>
  The claim as the specification states it fails on the rows \<open>near_data\<close>: the two slopes
  differ by \<open>1e-10\<close>, less than the tolerance \<open>1e-9\<close>, and the call returns a result.
\<close>

theorem nearly_parallel_counterexample:
  "\<bar>- idxCc near_data - slopeBisect (slopeMP (cs_of line_deps near_data) 10)\<bar> < 1 / 10 ^ 9 \<and>
   getSigmaP line_deps (init near_data) None (Some (10, 1000000)) False =
     Inr \<lparr>data = near_data, sigmaMC = Some 10, eMC = Some (17 / 4), sigmaP = Some 100,
          eSigmaP = Some (47 / 12), ocr = Some 2\<rparr>"
proof -
  have b: "slopeBisect (slopeMP line_cs 10) = - 1 / 3"
    using slopeBisect_example by (simp add: slopeMP_def line_cs_def)
  have cs: "cs_of line_deps near_data = line_cs"
    by (simp add: cs_of_def line_deps_def)
  have "getSigmaP line_deps (init near_data) None (Some (10, 1000000)) False =
      Inr (bisector_vcl line_cs (init near_data) 10 (17 / 4))"
    using getSigmaP_eval [of line_deps "init near_data" line_cs "Some (10, 1000000)" False 10 "17 / 4" None]
      near_spline near_fop by (simp add: init_def)
  then have "getSigmaP line_deps (init near_data) None (Some (10, 1000000)) False =
     Inr \<lparr>data = near_data, sigmaMC = Some 10, eMC = Some (17 / 4), sigmaP = Some 100,
          eSigmaP = Some (47 / 12), ocr = Some 2\<rparr>"
    using near_intersect b by (simp add: bisector_vcl_def Let_def log10_values init_def)
  moreover have "\<bar>- idxCc near_data - slopeBisect (slopeMP (cs_of line_deps near_data) 10)\<bar> < 1 / 10 ^ 9"
    unfolding cs b by (simp add: near_data_def)
  ultimately show ?thesis by simp
qed

text \<open>
  Claim C6, as the code has it. With \<open>range2fitFOP = None\<close>, when the spline is built
  and \<open>find_peaks\<close> reports no peak of the curvature samples, the call fails with
  Python's \<open>IndexError\<close> (the empty array of peaks is indexed). In every mode a call
  either returns with all five attributes assigned or raises \<open>IndexError\<close>,
  \<open>ValueError\<close> or \<open>TypeError\<close>.
\<close>

theorem failures_are_python_exceptions:
  "(CubicSpline (interp dp) (list_all (\<lambda>s. 0 < s) (stress1 (data self)))
        (sigmaLog (data self)) (e1 (data self)) = Inr cs \<longrightarrow>
    find_peaks (map (\<lambda>x. curvature_of (cs 2 x) (cs 1 x)) (sigmaCS (data self))) 500 = [] \<longrightarrow>
    getSigmaP dp self mcp None ll = Inl IndexError) \<and>
   (case getSigmaP dp self mcp r2f ll of
      Inl err \<Rightarrow> err = IndexError \<or> err = ValueError \<or> err = TypeError
    | Inr self' \<Rightarrow> sigmaMC self' \<noteq> None \<and> eMC self' \<noteq> None \<and> sigmaP self' \<noteq> None \<and>
        eSigmaP self' \<noteq> None \<and> ocr self' \<noteq> None)"
proof (intro conjI impI)
  assume "CubicSpline (interp dp) (list_all (\<lambda>s. 0 < s) (stress1 (data self)))
        (sigmaLog (data self)) (e1 (data self)) = Inr cs"
    and "find_peaks (map (\<lambda>x. curvature_of (cs 2 x) (cs 1 x)) (sigmaCS (data self))) 500 = []"
  then show "getSigmaP dp self mcp None ll = Inl IndexError" by (rule spline_mode_no_peak)
next
  show "case getSigmaP dp self mcp r2f ll of
      Inl err \<Rightarrow> err = IndexError \<or> err = ValueError \<or> err = TypeError
    | Inr self' \<Rightarrow> sigmaMC self' \<noteq> None \<and> eMC self' \<noteq> None \<and> sigmaP self' \<noteq> None \<and>
        eSigmaP self' \<noteq> None \<and> ocr self' \<noteq> None"
  proof (cases "getSigmaP dp self mcp r2f ll")
    case (Inl err)
    with getSigmaP_errors [OF Inl] show ?thesis by simp
  next
    case (Inr self')
    from getSigmaP_Inr [OF Inr] obtain s ev where
      "self' = bisector_vcl (cs_of dp (data self)) self s ev" by (cases mcp) auto
    with Inr show ?thesis by (simp add: bisector_vcl_sel)
  qed
qed

theorem failures_are_python_exceptions_witness:
  "CubicSpline (interp line_deps) (list_all (\<lambda>s. 0 < s) (stress1 (data (init line_data))))
        (sigmaLog (data (init line_data))) (e1 (data (init line_data))) = Inr line_cs \<and>
   find_peaks (map (\<lambda>x. curvature_of (line_cs 2 x) (line_cs 1 x))
     (sigmaCS (data (init line_data)))) 500 = [] \<and>
   getSigmaP line_deps (init line_data) None None False = Inl IndexError \<and>
   (case getSigmaP line_deps (init line_data) None (Some (10, 1000000)) False of
      Inl err \<Rightarrow> err = IndexError \<or> err = ValueError \<or> err = TypeError
    | Inr self' \<Rightarrow> sigmaMC self' \<noteq> None \<and> eMC self' \<noteq> None \<and> sigmaP self' \<noteq> None \<and>
        eSigmaP self' \<noteq> None \<and> ocr self' \<noteq> None)"
proof -
  have 1: "CubicSpline (interp line_deps) (list_all (\<lambda>s. 0 < s) (stress1 (data (init line_data))))
        (sigmaLog (data (init line_data))) (e1 (data (init line_data))) = Inr line_cs"
    using line_spline by (simp add: init_def)
  have 2: "find_peaks (map (\<lambda>x. curvature_of (line_cs 2 x) (line_cs 1 x))
     (sigmaCS (data (init line_data)))) 500 = []"
    using line_no_peak by (simp add: init_def)
  from failures_are_python_exceptions [where dp = line_deps and self = "init line_data"
      and cs = line_cs and mcp = None and ll = False and ?r2f = "Some (10, 1000000)"] 1 2
  show ?thesis by blast
qed

text \<open>
  The claim as the specification states it fails on the straight line, whose curvature is
  zero at every sample: the exception is \<open>IndexError\<close>, not \<open>NoCurvatureMaximumError\<close>.
\<close>

theorem no_peak_counterexample:
  "find_peaks (map (\<lambda>x. curvature_of (line_cs 2 x) (line_cs 1 x)) (sigmaCS line_data)) 500 = [] \<and>
   getSigmaP line_deps (init line_data) None None True = Inl IndexError \<and>
   getSigmaP line_deps (init line_data) None None True \<noteq> Inl NoCurvatureMaximumError"
  using line_no_peak line_spline_mode [of None True] by simp

text \<open>
  Claim C7. With \<open>mcp = None\<close> and a range \<open>(lo, hi)\<close>: the stresses \<open>sigmaFOP\<close> of the
  rows selected by the range are transformed by \<open>tr\<close>, which is \<open>log10(log10(.))\<close> when
  \<open>loglog\<close> is set and \<open>log10\<close> otherwise; \<open>p0 .. p4\<close> are the coefficients of the
  least-squares polynomial of degree four of the void ratios over the transformed
  stresses; \<open>k\<close> is its curvature. A call that returns has taken the MCP at an index
  \<open>idx\<close> of the 1000 samples \<open>x4FOP\<close> at which \<open>k\<close> is greatest among all samples (the
  first such index): \<open>sigmaMC\<close> is the transformed sample with the transform undone,
  which is the sample itself when its logarithms are defined, and \<open>eMC\<close> is the
  polynomial there.
\<close>

theorem polynomial_mode:
  assumes ok: "getSigmaP dp self None (Some (lo, hi)) ll = Inr self'"
    and sigmaFOP: "sigmaFOP = py_slice (findStressIdx dp (data self) lo True)
        (findStressIdx dp (data self) hi True) (map fst (cleaned (data self)))"
    and eFOP: "eFOP = py_slice (findStressIdx dp (data self) lo True)
        (findStressIdx dp (data self) hi True) (map snd (cleaned (data self)))"
    and tr: "tr = (\<lambda>x. if ll then log 10 (log 10 x) else log 10 x)"
    and fit: "lstsq4 dp (map tr sigmaFOP) eFOP = (p0, p1, p2, p3, p4)"
    and x4: "x4FOP = linspace (hd sigmaFOP) (last sigmaFOP) 1000"
    and k: "k = (\<lambda>x. \<bar>2 * p2 + 6 * p3 * x + 12 * p4 * x\<^sup>2\<bar> /
                    (1 + (p1 + 2 * p2 * x + 3 * p3 * x\<^sup>2 + 4 * p4 * x ^ 3)\<^sup>2) powr (3 / 2))"
  shows "\<exists>idx. idx < 1000 \<and> length x4FOP = 1000 \<and>
     (\<forall>j<1000. k (tr (x4FOP ! j)) \<le> k (tr (x4FOP ! idx))) \<and>
     (\<forall>j<idx. k (tr (x4FOP ! j)) < k (tr (x4FOP ! idx))) \<and>
     sigmaMC self' = Some (if ll then 10 powr (10 powr tr (x4FOP ! idx)) else 10 powr tr (x4FOP ! idx)) \<and>
     eMC self' = Some (p0 + p1 * tr (x4FOP ! idx) + p2 * (tr (x4FOP ! idx))\<^sup>2 +
                       p3 * tr (x4FOP ! idx) ^ 3 + p4 * tr (x4FOP ! idx) ^ 4) \<and>
     ((if ll then 1 else 0) < x4FOP ! idx \<longrightarrow> sigmaMC self' = Some (x4FOP ! idx))"
proof -
  let ?cs = "cs_of dp (data self)"
  have trt: "tr = (\<lambda>x. transform ll x False)" by (auto simp: tr transform_def)
  from getSigmaP_Inr [OF ok] obtain s0 e0 where
    f: "fop_mcp dp (data self) (lo, hi) ll = Inr (s0, e0)"
    and r: "self' = bisector_vcl ?cs self s0 e0"
    by (auto simp: mcp_search_def)
  from fop_mcp_Inr [OF f sigmaFOP eFOP fit [unfolded trt]] obtain idx where
    a: "argmax (fop_curvature (p0, p1, p2, p3, p4) (fop_samples ll sigmaFOP)) = Inr idx"
    and s0: "s0 = transform ll (fop_samples ll sigmaFOP ! idx) True"
    and e0: "e0 = polyval (fop_samples ll sigmaFOP ! idx) [p0, p1, p2, p3, p4]"
    by auto
  let ?c = "fop_curvature (p0, p1, p2, p3, p4) (fop_samples ll sigmaFOP)"
  have len: "length ?c = 1000" by (simp add: fop_curvature_def fop_samples_def)
  have smp: "fop_samples ll sigmaFOP ! j = tr (x4FOP ! j)" if "j < 1000" for j
    using that by (simp add: fop_samples_def x4 trt)
  have cn: "?c ! j = k (tr (x4FOP ! j))" if "j < 1000" for j
    using that smp [OF that] by (simp add: fop_curvature_def fop_samples_def k curvature_of_def)
  from argmax_props [OF a] len have i: "idx < 1000"
    and mx: "\<forall>j<1000. ?c ! j \<le> ?c ! idx" and fst: "\<forall>j<idx. ?c ! j < ?c ! idx"
    by simp_all
  have 1: "\<forall>j<1000. k (tr (x4FOP ! j)) \<le> k (tr (x4FOP ! idx))"
    using mx cn i by simp
  have 2: "\<forall>j<idx. k (tr (x4FOP ! j)) < k (tr (x4FOP ! idx))"
    using fst cn i by simp
  have 3: "sigmaMC self' = Some (if ll then 10 powr (10 powr tr (x4FOP ! idx)) else 10 powr tr (x4FOP ! idx))"
    unfolding r by (simp add: bisector_vcl_sel s0 smp [OF i] transform_def)
  have 4: "eMC self' = Some (p0 + p1 * tr (x4FOP ! idx) + p2 * (tr (x4FOP ! idx))\<^sup>2 +
                       p3 * tr (x4FOP ! idx) ^ 3 + p4 * tr (x4FOP ! idx) ^ 4)"
    unfolding r by (simp add: bisector_vcl_sel e0 smp [OF i] polyval5)
  have 5: "(if ll then 1 else 0) < x4FOP ! idx \<longrightarrow> sigmaMC self' = Some (x4FOP ! idx)"
  proof
    assume "(if ll then 1 else 0) < x4FOP ! idx"
    from transform_inverse [OF this] show "sigmaMC self' = Some (x4FOP ! idx)"
      unfolding r by (simp add: bisector_vcl_sel s0 smp [OF i] trt)
  qed
  have "length x4FOP = 1000" by (simp add: x4)
  with i 1 2 3 4 5 show ?thesis by blast
qed


theorem polynomial_mode_witness:
  "getSigmaP line_deps (init line_data) None (Some (10, 1000000)) False =
     Inr \<lparr>data = line_data, sigmaMC = Some 10, eMC = Some (17 / 4), sigmaP = Some 100,
          eSigmaP = Some (47 / 12), ocr = Some 2\<rparr> \<and>
   py_slice (findStressIdx line_deps (data (init line_data)) 10 True)
     (findStressIdx line_deps (data (init line_data)) 1000000 True)
     (map fst (cleaned (data (init line_data)))) = [10, 100, 1000, 10000, 100000] \<and>
   py_slice (findStressIdx line_deps (data (init line_data)) 10 True)
     (findStressIdx line_deps (data (init line_data)) 1000000 True)
     (map snd (cleaned (data (init line_data)))) = [17 / 4, 7 / 2, 11 / 4, 2, 5 / 4] \<and>
   lstsq4 line_deps (map (\<lambda>x. if False then log 10 (log 10 x) else log 10 x)
     [10, 100, 1000, 10000, 100000]) [17 / 4, 7 / 2, 11 / 4, 2, 5 / 4] = (5, - 3 / 4, 0, 0, 0) \<and>
   (\<exists>idx. idx < 1000 \<and> (0::real) < linspace 10 100000 1000 ! idx \<and>
      Some (10::real) = Some (linspace 10 100000 1000 ! idx) \<and>
      Some (17 / 4 :: real) = Some (5 + - 3 / 4 * log 10 (linspace 10 100000 1000 ! idx) +
         0 * (log 10 (linspace 10 100000 1000 ! idx))\<^sup>2 +
         0 * log 10 (linspace 10 100000 1000 ! idx) ^ 3 +
         0 * log 10 (linspace 10 100000 1000 ! idx) ^ 4))"
proof -
  let ?R = "\<lparr>data = line_data, sigmaMC = Some 10, eMC = Some (17 / 4), sigmaP = Some 100,
          eSigmaP = Some (47 / 12), ocr = Some 2\<rparr>"
  let ?tr = "\<lambda>x::real. if False then log 10 (log 10 x) else log 10 x"
  let ?k = "\<lambda>x::real. \<bar>2 * 0 + 6 * 0 * x + 12 * 0 * x\<^sup>2\<bar> /
                    (1 + (- 3 / 4 + 2 * 0 * x + 3 * 0 * x\<^sup>2 + 4 * 0 * x ^ 3)\<^sup>2) powr (3 / 2)"
  have s: "py_slice (findStressIdx line_deps (data (init line_data)) 10 True)
     (findStressIdx line_deps (data (init line_data)) 1000000 True)
     (map fst (cleaned (data (init line_data)))) = [10, 100, 1000, 10000, 100000]"
    by (simp add: py_slice_def line_deps_def ceil_idx_def line_data_def line_rows_def init_def)
  have e: "py_slice (findStressIdx line_deps (data (init line_data)) 10 True)
     (findStressIdx line_deps (data (init line_data)) 1000000 True)
     (map snd (cleaned (data (init line_data)))) = [17 / 4, 7 / 2, 11 / 4, 2, 5 / 4]"
    by (simp add: py_slice_def line_deps_def ceil_idx_def line_data_def line_rows_def init_def)
  have f: "lstsq4 line_deps (map ?tr [10, 100, 1000, 10000, 100000])
     [17 / 4, 7 / 2, 11 / 4, 2, 5 / 4] = (5, - 3 / 4, 0, 0, 0)"
    by (simp add: line_deps_def)
  have x: "linspace 10 100000 1000 = linspace (hd [10, 100, 1000, 10000, 100000])
     (last [10, 100, 1000, 10000, 100000]) 1000" by simp
  from polynomial_mode [OF line_result s [symmetric] e [symmetric] refl f x refl]
  obtain idx where i: "idx < 1000"
    and mc: "sigmaMC ?R = Some (if False then 10 powr (10 powr ?tr (linspace 10 100000 1000 ! idx))
        else 10 powr ?tr (linspace 10 100000 1000 ! idx))"
    and em: "eMC ?R = Some (5 + - 3 / 4 * ?tr (linspace 10 100000 1000 ! idx) +
        0 * (?tr (linspace 10 100000 1000 ! idx))\<^sup>2 + 0 * ?tr (linspace 10 100000 1000 ! idx) ^ 3 +
        0 * ?tr (linspace 10 100000 1000 ! idx) ^ 4)"
    and inv: "(if False then 1 else 0) < linspace 10 100000 1000 ! idx \<longrightarrow>
        sigmaMC ?R = Some (linspace 10 100000 1000 ! idx)"
    by (elim exE conjE) (rule that; assumption)
  have pos: "(0::real) < linspace 10 100000 1000 ! idx"
    using i by (simp add: linspace_nth add_pos_nonneg)
  with inv have "Some (10::real) = Some (linspace 10 100000 1000 ! idx)" by simp
  moreover from em have "Some (17 / 4 :: real) =
      Some (5 + - 3 / 4 * log 10 (linspace 10 100000 1000 ! idx) +
         0 * (log 10 (linspace 10 100000 1000 ! idx))\<^sup>2 +
         0 * log 10 (linspace 10 100000 1000 ! idx) ^ 3 +
         0 * log 10 (linspace 10 100000 1000 ! idx) ^ 4)" by simp
  ultimately have "\<exists>idx. idx < 1000 \<and> (0::real) < linspace 10 100000 1000 ! idx \<and>
      Some (10::real) = Some (linspace 10 100000 1000 ! idx) \<and>
      Some (17 / 4 :: real) = Some (5 + - 3 / 4 * log 10 (linspace 10 100000 1000 ! idx) +
         0 * (log 10 (linspace 10 100000 1000 ! idx))\<^sup>2 +
         0 * log 10 (linspace 10 100000 1000 ! idx) ^ 3 +
         0 * log 10 (linspace 10 100000 1000 ! idx) ^ 4)"
    using i pos by (intro exI [of _ idx] conjI)
  with line_result s e f show ?thesis by (intro conjI)
qed

text \<open>
  Claim C4, as the code has it. When \<open>mcp\<close> is given and the call returns, the MCP is
  \<open>mcp\<close> with the void ratio of the cubic spline at \<open>log10(mcp)\<close>, the void ratio
  \<open>eSigmaP\<close> lies on the bisector through that point at the pressure \<open>sigmaP\<close>, and every
  call with this \<open>mcp\<close> that returns, whatever \<open>range2fitFOP\<close> and \<open>loglog\<close> are, returns
  the same object.
\<close>

theorem manual_override:
  assumes "getSigmaP dp self (Some m) r2f ll = Inr self'"
  shows "sigmaMC self' = Some m \<and> eMC self' = Some (cs_of dp (data self) 0 (log 10 m)) \<and>
     (\<exists>b sP. b = tan (0.5 * arctan (cs_of dp (data self) 1 (log 10 m))) \<and>
        sigmaP self' = Some sP \<and>
        eSigmaP self' = Some (b * (log 10 sP - log 10 m) + cs_of dp (data self) 0 (log 10 m))) \<and>
     (\<forall>r2f' ll' self''. getSigmaP dp self (Some m) r2f' ll' = Inr self'' \<longrightarrow> self'' = self')"
proof -
  let ?cs = "cs_of dp (data self)"
  from getSigmaP_Inr [OF assms] have r: "self' = bisector_vcl ?cs self m (?cs 0 (log 10 m))"
    by auto
  have u: "\<forall>r2f' ll' self''. getSigmaP dp self (Some m) r2f' ll' = Inr self'' \<longrightarrow> self'' = self'"
  proof (intro allI impI)
    fix r2f' ll' self'' assume "getSigmaP dp self (Some m) r2f' ll' = Inr self''"
    from getSigmaP_Inr [OF this] show "self'' = self'" unfolding r by auto
  qed
  have "\<exists>b sP. b = tan (0.5 * arctan (?cs 1 (log 10 m))) \<and> sigmaP self' = Some sP \<and>
        eSigmaP self' = Some (b * (log 10 sP - log 10 m) + ?cs 0 (log 10 m))"
    unfolding r
    by (simp add: bisector_vcl_sel intersect_def Let_def slopeBisect_def slopeMP_def)
  with u show ?thesis unfolding r by (simp add: bisector_vcl_sel)
qed

theorem manual_override_witness:
  "getSigmaP line_deps (init line_data) (Some 1000) (Some (10, 1000000)) False =
     Inr \<lparr>data = line_data, sigmaMC = Some 1000, eMC = Some (11 / 4),
          sigmaP = Some (10 powr (17 / 6)), eSigmaP = Some (101 / 36),
          ocr = Some (10 powr (17 / 6) / 50)\<rparr> \<and>
   getSigmaP line_deps (init line_data) (Some 1000) (Some (1, 100000)) False =
     Inr \<lparr>data = line_data, sigmaMC = Some 1000, eMC = Some (11 / 4),
          sigmaP = Some (10 powr (17 / 6)), eSigmaP = Some (101 / 36),
          ocr = Some (10 powr (17 / 6) / 50)\<rparr> \<and>
   Some (11 / 4) = Some (cs_of line_deps (data (init line_data)) 0 (log 10 1000))"
proof -
  note t = manual_override [OF line_manual [OF line_fop]]
  from t [THEN conjunct2, THEN conjunct1]
  have "Some (11 / 4) = Some (cs_of line_deps (data (init line_data)) 0 (log 10 1000))"
    by simp
  with line_manual [OF line_fop] line_manual [OF line_fop2] show ?thesis by (intro conjI)
qed

text \<open>
  The claim as the specification states it fails on the straight line with \<open>mcp = 1000\<close>:
  \<open>eSigmaP\<close> is \<open>101 / 36\<close>, the spline at \<open>log10(1000)\<close> is \<open>11 / 4\<close>.
\<close>

theorem manual_override_counterexample:
  "getSigmaP line_deps (init line_data) (Some 1000) (Some (10, 1000000)) False =
     Inr \<lparr>data = line_data, sigmaMC = Some 1000, eMC = Some (11 / 4),
          sigmaP = Some (10 powr (17 / 6)), eSigmaP = Some (101 / 36),
          ocr = Some (10 powr (17 / 6) / 50)\<rparr> \<and>
   cs_of line_deps line_data 0 (log 10 1000) = 11 / 4 \<and>
   (101 / 36 :: real) \<noteq> 11 / 4"
  using line_manual [OF line_fop] by (simp add: cs_of_def line_deps_def line_cs_def log10_values)

text \<open>
  Claim C2. With \<open>mcp = None\<close> and \<open>range2fitFOP = None\<close> a call that returns has sampled
  the curvature \<open>k(t) = |cs''(t)| / (1 + cs'(t)^2)^1.5\<close> of the cubic spline at the 100
  evenly spaced points \<open>x\<close> between \<open>log10\<close> of the stress of the second cleaned row and
  \<open>log10\<close> of the stress of the last one, and has taken the MCP at the first index that
  \<open>find_peaks\<close> with a distance of 500 samples reports: \<open>sigmaMC = 10 ** x[idx]\<close> and
  \<open>eMC = cs(x[idx])\<close>.
\<close>

theorem spline_mode:
  assumes ok: "getSigmaP dp self None None ll = Inr self'"
    and cs: "cs = cs_of dp (data self)"
    and x: "x = sigmaCS (data self)"
    and k: "k = (\<lambda>t. \<bar>cs 2 t\<bar> / (1 + (cs 1 t)\<^sup>2) powr (3 / 2))"
  shows "length x = 100 \<and>
     (\<forall>i<100. x ! i = log 10 (fst (cleaned (data self) ! 1)) +
        real i * ((log 10 (fst (last (cleaned (data self)))) -
                   log 10 (fst (cleaned (data self) ! 1))) / 99)) \<and>
     (\<exists>idx rest. find_peaks (map k x) 500 = idx # rest \<and> idx < 100 \<and>
        sigmaMC self' = Some (10 powr (x ! idx)) \<and> eMC self' = Some (cs 0 (x ! idx)))"
proof -
  have c: "map k x = map (\<lambda>t. curvature_of (cs 2 t) (cs 1 t)) (sigmaCS (data self))"
    by (simp add: k x curvature_of_def)
  from spline_mode_Inr [OF ok cs c] obtain idx where
    f: "find_peaks (map k x) 500 = [idx]" and p: "idx \<in> set (local_maxima (map k x))"
    and r: "self' = bisector_vcl cs self (10 powr (x ! idx)) (cs 0 (x ! idx))"
    unfolding x by blast
  from local_maxima_lt [OF p] have "idx < 100" by (simp add: x)
  with f r have "\<exists>idx rest. find_peaks (map k x) 500 = idx # rest \<and> idx < 100 \<and>
        sigmaMC self' = Some (10 powr (x ! idx)) \<and> eMC self' = Some (cs 0 (x ! idx))"
    by (simp add: bisector_vcl_sel)
  moreover have "\<forall>i<100. x ! i = log 10 (fst (cleaned (data self) ! 1)) +
        real i * ((log 10 (fst (last (cleaned (data self)))) -
                   log 10 (fst (cleaned (data self) ! 1))) / 99)"
    unfolding x using sigmaCS_nth [OF ok] by blast
  moreover have "length x = 100" by (simp add: x)
  ultimately show ?thesis by blast
qed

theorem spline_mode_witness:
  "getSigmaP (parab_deps 2) (init (parab_data 2)) None None True =
     Inr \<lparr>data = parab_data 2, sigmaMC = Some 100, eMC = Some 2, sigmaP = Some 1000,
          eSigmaP = Some 2, ocr = Some 10\<rparr> \<and>
   length (sigmaCS (parab_data 2)) = 100 \<and>
   (\<exists>idx rest. find_peaks (parab_curvature 2) 500 = idx # rest \<and> idx < 100 \<and>
      Some (100::real) = Some (10 powr (sigmaCS (parab_data 2) ! idx)) \<and>
      Some (2::real) = Some (parab 2 0 (sigmaCS (parab_data 2) ! idx)))"
proof -
  note t = spline_mode [OF parab_result [of True] refl refl refl]
  from t [THEN conjunct2, THEN conjunct2]
  have "\<exists>idx rest. find_peaks (parab_curvature 2) 500 = idx # rest \<and> idx < 100 \<and>
      Some (100::real) = Some (10 powr (sigmaCS (parab_data 2) ! idx)) \<and>
      Some (2::real) = Some (parab 2 0 (sigmaCS (parab_data 2) ! idx))"
    unfolding parab_cs_of data_init parab_curvature_def by simp
  with parab_result [of True] show ?thesis by simp
qed

text \<open>
  Claim C10, as the code has it. With \<open>mcp = None\<close> and \<open>range2fitFOP = None\<close> a call that
  returns has found exactly one peak \<open>idx\<close>. It is neither the first nor the last of the
  100 samples, none of its two neighbours is greater, it is the middle of a run of equal
  samples that is higher than the samples on both sides of the run, and no sample that
  is greater than both its neighbours is greater than it. The MCP stress lies strictly
  between the stress of the second cleaned row and the stress of the last cleaned row.
\<close>

theorem spline_peak_is_interior:
  assumes ok: "getSigmaP dp self None None ll = Inr self'"
    and cs: "cs = cs_of dp (data self)"
    and x: "x = sigmaCS (data self)"
    and c: "curvature = map (\<lambda>t. \<bar>cs 2 t\<bar> / (1 + (cs 1 t)\<^sup>2) powr (3 / 2)) x"
  shows "\<exists>idx. find_peaks curvature 500 = [idx] \<and> 0 < idx \<and> idx < 99 \<and>
     curvature ! (idx - 1) \<le> curvature ! idx \<and> curvature ! (idx + 1) \<le> curvature ! idx \<and>
     (\<exists>l r. flat_peak curvature l r \<and> idx = (l + r) div 2) \<and>
     (\<forall>j. 0 < j \<and> j < 99 \<and> curvature ! (j - 1) < curvature ! j \<and>
          curvature ! (j + 1) < curvature ! j \<longrightarrow> curvature ! j \<le> curvature ! idx) \<and>
     sigmaMC self' = Some (10 powr (x ! idx)) \<and>
     fst (cleaned (data self) ! 1) < 10 powr (x ! idx) \<and>
     10 powr (x ! idx) < fst (last (cleaned (data self)))"
proof -
  have c': "curvature = map (\<lambda>t. curvature_of (cs 2 t) (cs 1 t)) (sigmaCS (data self))"
    by (simp add: c x curvature_of_def)
  have len: "length curvature = 100" by (simp add: c x)
  from spline_mode_Inr [OF ok cs c'] obtain idx where
    f: "find_peaks curvature 500 = [idx]" and p: "idx \<in> set (local_maxima curvature)"
    and mx: "\<forall>p\<in>set (local_maxima curvature). curvature ! p \<le> curvature ! idx"
    and r: "self' = bisector_vcl cs self (10 powr (x ! idx)) (cs 0 (x ! idx))"
    unfolding x by blast
  from p obtain l r where fp: "flat_peak curvature l r" "idx = (l + r) div 2"
    unfolding local_maxima_iff by blast
  from flat_peak_middle [OF fp] len have i: "0 < idx" "idx < 99"
    and nb: "curvature ! (idx - 1) \<le> curvature ! idx" "curvature ! (idx + 1) \<le> curvature ! idx"
    by simp_all
  have strict: "\<forall>j. 0 < j \<and> j < 99 \<and> curvature ! (j - 1) < curvature ! j \<and>
          curvature ! (j + 1) < curvature ! j \<longrightarrow> curvature ! j \<le> curvature ! idx"
  proof (intro allI impI)
    fix j assume j: "0 < j \<and> j < 99 \<and> curvature ! (j - 1) < curvature ! j \<and>
          curvature ! (j + 1) < curvature ! j"
    then have "flat_peak curvature j j"
      unfolding flat_peak_def using len by (auto dest: le_antisym)
    then have "j \<in> set (local_maxima curvature)"
      unfolding local_maxima_iff by (intro exI [of _ j]) simp
    with mx show "curvature ! j \<le> curvature ! idx" by blast
  qed
  from knots_of_spline [OF ok] have pos: "0 < fst (cleaned (data self) ! 1)"
      "0 < fst (last (cleaned (data self)))"
    and lt: "log 10 (fst (cleaned (data self) ! 1)) < log 10 (fst (last (cleaned (data self))))"
    by blast+
  define a where "a = log 10 (fst (cleaned (data self) ! 1))"
  define b where "b = log 10 (fst (last (cleaned (data self))))"
  have xi: "x ! idx = a + real idx * ((b - a) / 99)"
    unfolding x a_def b_def using i by (intro sigmaCS_nth [OF ok]) simp
  have ab: "a < b" using lt by (simp add: a_def b_def)
  have "0 < real idx * ((b - a) / 99)" using i ab by simp
  then have lo: "a < x ! idx" unfolding xi by simp
  have "real idx * ((b - a) / 99) < 99 * ((b - a) / 99)"
    using i ab by (intro mult_strict_right_mono) simp_all
  then have hi: "x ! idx < b" unfolding xi by simp
  have pa: "10 powr a = fst (cleaned (data self) ! 1)"
    unfolding a_def using pos(1) by simp
  have pb: "10 powr b = fst (last (cleaned (data self)))"
    unfolding b_def using pos(2) by simp
  from lo have "10 powr a < 10 powr (x ! idx)" by simp
  with pa have 1: "fst (cleaned (data self) ! 1) < 10 powr (x ! idx)" by linarith
  from hi have "10 powr (x ! idx) < 10 powr b" by simp
  with pb have 2: "10 powr (x ! idx) < fst (last (cleaned (data self)))" by linarith
  have 3: "sigmaMC self' = Some (10 powr (x ! idx))" unfolding r by (simp add: bisector_vcl_sel)
  from f i nb fp strict 1 2 3 show ?thesis by blast
qed

theorem spline_peak_is_interior_witness:
  "getSigmaP (parab_deps 2) (init (parab_data 2)) None None True =
     Inr \<lparr>data = parab_data 2, sigmaMC = Some 100, eMC = Some 2, sigmaP = Some 1000,
          eSigmaP = Some 2, ocr = Some 10\<rparr> \<and>
   (\<exists>idx. find_peaks (parab_curvature 2) 500 = [idx] \<and> 0 < idx \<and> idx < 99 \<and>
      (\<exists>l r. flat_peak (parab_curvature 2) l r \<and> idx = (l + r) div 2) \<and>
      Some (100::real) = Some (10 powr (sigmaCS (parab_data 2) ! idx)) \<and>
      fst (cleaned (parab_data 2) ! 1) < 10 powr (sigmaCS (parab_data 2) ! idx) \<and>
      10 powr (sigmaCS (parab_data 2) ! idx) < fst (last (cleaned (parab_data 2))))"
proof -
  note t = spline_peak_is_interior [OF parab_result [of True] refl refl refl]
  from t obtain idx l r where
    "find_peaks (map (\<lambda>t. \<bar>cs_of (parab_deps 2) (data (init (parab_data 2))) 2 t\<bar> /
        (1 + (cs_of (parab_deps 2) (data (init (parab_data 2))) 1 t)\<^sup>2) powr (3 / 2))
        (sigmaCS (data (init (parab_data 2))))) 500 = [idx]" "0 < idx" "idx < 99"
    "flat_peak (map (\<lambda>t. \<bar>cs_of (parab_deps 2) (data (init (parab_data 2))) 2 t\<bar> /
        (1 + (cs_of (parab_deps 2) (data (init (parab_data 2))) 1 t)\<^sup>2) powr (3 / 2))
        (sigmaCS (data (init (parab_data 2))))) l r" "idx = (l + r) div 2"
    "sigmaMC \<lparr>data = parab_data 2, sigmaMC = Some 100, eMC = Some 2, sigmaP = Some 1000,
          eSigmaP = Some 2, ocr = Some 10\<rparr> =
       Some (10 powr (sigmaCS (data (init (parab_data 2))) ! idx))"
    "fst (cleaned (data (init (parab_data 2))) ! 1) < 10 powr (sigmaCS (data (init (parab_data 2))) ! idx)"
    "10 powr (sigmaCS (data (init (parab_data 2))) ! idx) < fst (last (cleaned (data (init (parab_data 2)))))"
    by (elim exE conjE) (rule that; assumption)
  then have "find_peaks (parab_curvature 2) 500 = [idx] \<and> 0 < idx \<and> idx < 99 \<and>
      (\<exists>l r. flat_peak (parab_curvature 2) l r \<and> idx = (l + r) div 2) \<and>
      Some (100::real) = Some (10 powr (sigmaCS (parab_data 2) ! idx)) \<and>
      fst (cleaned (parab_data 2) ! 1) < 10 powr (sigmaCS (parab_data 2) ! idx) \<and>
      10 powr (sigmaCS (parab_data 2) ! idx) < fst (last (cleaned (parab_data 2)))"
    unfolding parab_cs_of data_init parab_curvature_def by auto
  then have "\<exists>idx. find_peaks (parab_curvature 2) 500 = [idx] \<and> 0 < idx \<and> idx < 99 \<and>
      (\<exists>l r. flat_peak (parab_curvature 2) l r \<and> idx = (l + r) div 2) \<and>
      Some (100::real) = Some (10 powr (sigmaCS (parab_data 2) ! idx)) \<and>
      fst (cleaned (parab_data 2) ! 1) < 10 powr (sigmaCS (parab_data 2) ! idx) \<and>
      10 powr (sigmaCS (parab_data 2) ! idx) < fst (last (cleaned (parab_data 2)))" ..
  with parab_result [of True] show ?thesis by (intro conjI)
qed

text \<open>
  The claim as the specification states it fails on the parabola whose vertex lies half
  way between two samples: the peak reported is the sample 33, and the sample 34 is as
  high, so the sample 33 is not strictly greater than both its neighbours.
\<close>

theorem flat_peak_counterexample:
  "getSigmaP (parab_deps (133 / 66)) (init (parab_data (133 / 66))) None None True =
     Inr (bisector_vcl (parab (133 / 66)) (init (parab_data (133 / 66))) 100 (23231 / 11616)) \<and>
   parab_curvature (133 / 66) =
     map (\<lambda>t. \<bar>cs_of (parab_deps (133 / 66)) (parab_data (133 / 66)) 2 t\<bar> /
           (1 + (cs_of (parab_deps (133 / 66)) (parab_data (133 / 66)) 1 t)\<^sup>2) powr (3 / 2))
       (sigmaCS (parab_data (133 / 66))) \<and>
   find_peaks (parab_curvature (133 / 66)) 500 = [33] \<and>
   parab_curvature (133 / 66) ! 34 = parab_curvature (133 / 66) ! 33"
proof -
  have e: "parab (133 / 66) 0 2 = 23231 / 11616"
    by (simp add: parab_def power2_eq_square)
  have "parab_curvature (133 / 66) ! Suc 33 = parab_curvature (133 / 66) ! 33"
    using flat_unimodal unfolding unimodal_def by auto
  then have "parab_curvature (133 / 66) ! 34 = parab_curvature (133 / 66) ! 33" by simp
  with parab_mcp [OF flat_peak_found, of True] e flat_peak_found show ?thesis
    by (simp add: parab_cs_of parab_curvature_def)
qed

end
